theory Spec2Isabelle
  imports Main
begin

section \<open>Values, objects and the heap\<close>

text \<open>
  The library manipulates JavaScript values. A value is a primitive, an array or a
  reference to a heap object. Numbers are the integers together with \<open>Infinity\<close>, which
  the library uses as the stop sentinel of \<open>each\<close>. Arrays are immediate values: the
  library only reads the arrays it is given. \<open>VTypeError\<close> stands for the TypeError
  object the host raises when a property of \<open>undefined\<close> or \<open>null\<close> is read or
  written, or when a value that is not a function is called.
\<close>

type_synonym ref = nat

datatype val =
    VUndefined | VNull | VBool bool | VNum int | VInfinity | VStr string
  | VArr "val list" | VRef ref | VTypeError

text \<open>
  A property has a value and the two attributes the library depends on:
  \<open>for (item in collection)\<close> and \<open>propertyIsEnumerable\<close> see enumerable
  properties only, and an assignment to a property that is not writable is ignored
  (the file is not in strict mode).
\<close>

record property =
  pvalue :: val
  enumerable :: bool
  writable :: bool

text \<open>
  A function object is a function of the host program, the empty function
  \<open>function() {}\<close> that \<open>Class\<close> creates when the api has no constructor, or the
  \<open>$super\<close> closure that \<open>makeSuper child parent\<close> creates.
\<close>

datatype fkind = UserFn nat | EmptyFn | SuperFn val val

datatype okind = KObject | KFunction fkind

text \<open>Own properties are kept in the order of their creation.\<close>

record obj =
  kind :: okind
  props :: "(string \<times> property) list"
  proto :: "ref option"

type_synonym heap = "obj list"

text \<open>
  The result of running code: it returns a value, throws a value, or does not return.
\<close>

datatype ('a, 's) outcome = Return 'a 's | Throw val 's | Diverges

definition INVALID :: val where
  "INVALID = VStr ''Invalid params''"

definition truthy :: "val \<Rightarrow> bool" where
  "truthy v = (case v of
      VUndefined \<Rightarrow> False | VNull \<Rightarrow> False | VBool b \<Rightarrow> b | VNum n \<Rightarrow> n \<noteq> 0
    | VStr s \<Rightarrow> s \<noteq> [] | _ \<Rightarrow> True)"

definition obj_at :: "heap \<Rightarrow> ref \<Rightarrow> obj option" where
  "obj_at h r = (if r < length h then Some (h ! r) else None)"

definition own_prop :: "heap \<Rightarrow> ref \<Rightarrow> string \<Rightarrow> property option" where
  "own_prop h r k = (case obj_at h r of None \<Rightarrow> None | Some ob \<Rightarrow> map_of (props ob) k)"

text \<open>
  The prototype chain of an object, the object first. The host never builds a cyclic
  chain; the walk is bounded by the size of the heap so that it is total on every heap.
\<close>

fun chain_from :: "nat \<Rightarrow> heap \<Rightarrow> ref \<Rightarrow> ref list" where
  "chain_from 0 h r = []"
| "chain_from (Suc n) h r =
     (case obj_at h r of
        None \<Rightarrow> []
      | Some ob \<Rightarrow> r # (case proto ob of None \<Rightarrow> [] | Some p \<Rightarrow> chain_from n h p))"

definition chain :: "heap \<Rightarrow> ref \<Rightarrow> ref list" where
  "chain h r = chain_from (length h) h r"

fun find_prop :: "heap \<Rightarrow> ref list \<Rightarrow> string \<Rightarrow> property option" where
  "find_prop h [] k = None"
| "find_prop h (r # rs) k =
     (case own_prop h r k of Some p \<Rightarrow> Some p | None \<Rightarrow> find_prop h rs k)"

definition lookup :: "heap \<Rightarrow> ref \<Rightarrow> string \<Rightarrow> property option" where
  "lookup h r k = find_prop h (chain h r) k"

text \<open>Decimal property names of array indices: \<open>collection[i]\<close> reads property \<open>String(i)\<close>.\<close>

fun digits :: "nat \<Rightarrow> nat \<Rightarrow> string" where
  "digits 0 n = []"
| "digits (Suc f) n =
     (if n < 10 then [char_of (48 + n)] else digits f (n div 10) @ [char_of (48 + n mod 10)])"

definition index_name :: "nat \<Rightarrow> string" where
  "index_name n = digits (Suc n) n"

text \<open>
  \<open>v[k]\<close> for a value that is neither \<open>undefined\<close> nor \<open>null\<close>. Of the properties of
  primitives and arrays only \<open>length\<close> is modelled; array elements are read with
  \<open>get_index\<close>.
\<close>

definition get :: "heap \<Rightarrow> val \<Rightarrow> string \<Rightarrow> val" where
  "get h v k = (case v of
      VRef r \<Rightarrow> (case lookup h r k of None \<Rightarrow> VUndefined | Some p \<Rightarrow> pvalue p)
    | VArr xs \<Rightarrow> (if k = ''length'' then VNum (int (length xs)) else VUndefined)
    | VStr s \<Rightarrow> (if k = ''length'' then VNum (int (length s)) else VUndefined)
    | _ \<Rightarrow> VUndefined)"

definition get_index :: "heap \<Rightarrow> val \<Rightarrow> nat \<Rightarrow> val" where
  "get_index h v i = (case v of
      VArr xs \<Rightarrow> (if i < length xs then xs ! i else VUndefined)
    | VStr s \<Rightarrow> (if i < length s then VStr [s ! i] else VUndefined)
    | _ \<Rightarrow> get h v (index_name i))"

definition nullish :: "val \<Rightarrow> bool" where
  "nullish v = (v = VUndefined \<or> v = VNull)"

text \<open>
  \<open>r[k] = v\<close> on a heap object: an own property is overwritten when it is writable; a
  new own property (enumerable, writable) is appended unless the chain holds a property
  of that name that is not writable.
\<close>

definition update_prop :: "string \<Rightarrow> val \<Rightarrow> (string \<times> property) list \<Rightarrow> (string \<times> property) list" where
  "update_prop k v ps =
     (case map_of ps k of
        Some p \<Rightarrow> (if writable p then map (\<lambda>(k', p'). if k' = k then (k', p'\<lparr>pvalue := v\<rparr>) else (k', p')) ps else ps)
      | None \<Rightarrow> ps @ [(k, \<lparr>pvalue = v, enumerable = True, writable = True\<rparr>)])"

definition put_ref :: "heap \<Rightarrow> ref \<Rightarrow> string \<Rightarrow> val \<Rightarrow> heap" where
  "put_ref h r k v =
     (case obj_at h r of
        None \<Rightarrow> h
      | Some ob \<Rightarrow>
          (case map_of (props ob) k of
             Some p \<Rightarrow> h[r := ob\<lparr>props := update_prop k v (props ob)\<rparr>]
           | None \<Rightarrow>
               (case lookup h r k of
                  Some p \<Rightarrow> (if writable p then h[r := ob\<lparr>props := update_prop k v (props ob)\<rparr>] else h)
                | None \<Rightarrow> h[r := ob\<lparr>props := update_prop k v (props ob)\<rparr>])))"

text \<open>\<open>v[k] = x\<close>: on a primitive or an array the assignment has no effect.\<close>

definition put :: "heap \<Rightarrow> val \<Rightarrow> string \<Rightarrow> val \<Rightarrow> heap" where
  "put h v k x = (case v of VRef r \<Rightarrow> put_ref h r k x | _ \<Rightarrow> h)"

section \<open>Type predicates\<close>

text \<open>
  \<open>typeof v === "object"\<close>, \<open>typeof v === "function"\<close> and \<open>typeof v === "number"\<close>. A
  reference outside the heap is treated as an object without properties.
\<close>

definition typeof_function :: "heap \<Rightarrow> val \<Rightarrow> bool" where
  "typeof_function h v = (case v of
      VRef r \<Rightarrow> (case obj_at h r of Some ob \<Rightarrow> (case kind ob of KFunction f \<Rightarrow> True | KObject \<Rightarrow> False) | None \<Rightarrow> False)
    | _ \<Rightarrow> False)"

definition typeof_object :: "heap \<Rightarrow> val \<Rightarrow> bool" where
  "typeof_object h v = (case v of
      VNull \<Rightarrow> True | VArr xs \<Rightarrow> True | VTypeError \<Rightarrow> True
    | VRef r \<Rightarrow> \<not> typeof_function h v
    | _ \<Rightarrow> False)"

definition typeof_number :: "val \<Rightarrow> bool" where
  "typeof_number v = (case v of VNum n \<Rightarrow> True | VInfinity \<Rightarrow> True | _ \<Rightarrow> False)"

text \<open>\<open>v.propertyIsEnumerable(k)\<close>: \<open>k\<close> is an own property of \<open>v\<close> and enumerable.\<close>

definition propertyIsEnumerable :: "heap \<Rightarrow> val \<Rightarrow> string \<Rightarrow> bool" where
  "propertyIsEnumerable h v k = (case v of
      VRef r \<Rightarrow> (case own_prop h r k of Some p \<Rightarrow> enumerable p | None \<Rightarrow> False)
    | _ \<Rightarrow> False)"

text \<open>
  The predicates return a value that the callers only test; the model returns its
  truth value.
\<close>

definition isMap :: "heap \<Rightarrow> val \<Rightarrow> bool" where
  "isMap h v = (truthy v \<and> typeof_object h v \<and>
     \<not> (typeof_number (get h v ''length'') \<and> \<not> propertyIsEnumerable h v ''length''))"

definition isArray :: "heap \<Rightarrow> val \<Rightarrow> bool" where
  "isArray h v = (truthy v \<and> typeof_object h v \<and>
     typeof_number (get h v ''length'') \<and> \<not> propertyIsEnumerable h v ''length'')"

definition isFunction :: "heap \<Rightarrow> val \<Rightarrow> bool" where
  "isFunction h v = (truthy v \<and> typeof_function h v)"

definition isString :: "val \<Rightarrow> bool" where
  "isString v = (case v of VStr s \<Rightarrow> True | _ \<Rightarrow> False)"

text \<open>
  \<open>isClass\<close> reads \<open>clazz.prototype.constructor\<close>, which raises a TypeError when the
  function has no prototype object: \<open>None\<close> is that TypeError.
\<close>

definition isClass :: "heap \<Rightarrow> val \<Rightarrow> bool option" where
  "isClass h v =
     (if \<not> isFunction h v then Some False
      else if nullish (get h v ''prototype'') then None
      else Some (v = get h (get h v ''prototype'') ''constructor''))"

section \<open>Iteration: each\<close>

text \<open>
  The callback of \<open>each\<close> is called with three arguments and may change the state it
  closes over; \<open>'s\<close> is that state, of which \<open>each\<close> itself reads the heap through
  \<open>hp\<close>.
\<close>

type_synonym 's callback = "val \<Rightarrow> val \<Rightarrow> val \<Rightarrow> 's \<Rightarrow> (val, 's) outcome"

text \<open>The index loop over an array, a string (its characters) or a wrapped scalar.\<close>

fun each_list :: "'s callback \<Rightarrow> val \<Rightarrow> val list \<Rightarrow> nat \<Rightarrow> val list \<Rightarrow> 's \<Rightarrow> (val, 's) outcome" where
  "each_list fn coll [] i acc s = Return (VArr acc) s"
| "each_list fn coll (v # vs) i acc s =
     (case fn v (VNum (int i)) coll s of
        Return r s' \<Rightarrow>
          (if r = VInfinity then Return (VArr acc) s'
           else each_list fn coll vs (Suc i) (acc @ [r]) s')
      | Throw e s' \<Rightarrow> Throw e s'
      | Diverges \<Rightarrow> Diverges)"

text \<open>
  The index loop over a heap object that \<open>isArray\<close> accepts (its \<open>length\<close> is a number
  and not an own enumerable property). The elements are read from the current heap.
  \<open>budget\<close> is the number of iterations left: the length when it is finite, and the
  fuel when the length is \<open>Infinity\<close>, where the loop only ends if the callback stops it.
\<close>

fun each_index :: "bool \<Rightarrow> nat \<Rightarrow> ('s \<Rightarrow> heap) \<Rightarrow> 's callback \<Rightarrow> val \<Rightarrow> nat \<Rightarrow> val list \<Rightarrow> 's \<Rightarrow> (val, 's) outcome" where
  "each_index bounded 0 hp fn coll i acc s = (if bounded then Return (VArr acc) s else Diverges)"
| "each_index bounded (Suc b) hp fn coll i acc s =
     (case fn (get_index (hp s) coll i) (VNum (int i)) coll s of
        Return r s' \<Rightarrow>
          (if r = VInfinity then Return (VArr acc) s'
           else each_index bounded b hp fn coll (Suc i) (acc @ [r]) s')
      | Throw e s' \<Rightarrow> Throw e s'
      | Diverges \<Rightarrow> Diverges)"

text \<open>
  The order in which the host enumerates the own properties of an object: the names
  that are array indices (the decimal text of a number below \<open>2^32 - 1\<close>, without leading
  zeros) first, in ascending order, then the other names in the order of their creation.
\<close>

definition is_digit :: "char \<Rightarrow> bool" where
  "is_digit c = (c \<in> set ''0123456789'')"

definition digit_value :: "string \<Rightarrow> int" where
  "digit_value k = foldl (\<lambda>a c. 10 * a + (of_char c - 48)) 0 k"

definition array_index :: "string \<Rightarrow> int option" where
  "array_index k =
     (if k \<noteq> [] \<and> list_all is_digit k \<and> (k = ''0'' \<or> hd k \<noteq> CHR ''0'')
      then (if digit_value k < 4294967295 then Some (digit_value k) else None)
      else None)"

definition index_of :: "string \<times> property \<Rightarrow> int" where
  "index_of kp = (case array_index (fst kp) of Some n \<Rightarrow> n | None \<Rightarrow> 0)"

definition enum_order :: "(string \<times> property) list \<Rightarrow> (string \<times> property) list" where
  "enum_order ps =
     sort_key index_of (filter (\<lambda>kp. array_index (fst kp) \<noteq> None) ps)
     @ filter (\<lambda>kp. array_index (fst kp) = None) ps"

text \<open>
  \<open>for (item in collection)\<close>: the enumerable properties of the object and of its
  prototype chain, a name once, an own property before an inherited one; a property of
  any enumerability shadows the properties of that name further up.
\<close>

fun enum_chain :: "heap \<Rightarrow> ref list \<Rightarrow> string list \<Rightarrow> string list" where
  "enum_chain h [] seen = []"
| "enum_chain h (r # rs) seen =
     (case obj_at h r of
        None \<Rightarrow> []
      | Some ob \<Rightarrow>
          map fst (filter (\<lambda>(k, p). enumerable p \<and> k \<notin> set seen) (enum_order (props ob)))
          @ enum_chain h rs (seen @ map fst (props ob)))"

definition enum_keys :: "heap \<Rightarrow> val \<Rightarrow> string list" where
  "enum_keys h v = (case v of VRef r \<Rightarrow> enum_chain h (chain h r) [] | _ \<Rightarrow> [])"

definition has_property :: "heap \<Rightarrow> val \<Rightarrow> string \<Rightarrow> bool" where
  "has_property h v k = (case v of VRef r \<Rightarrow> lookup h r k \<noteq> None | _ \<Rightarrow> False)"

text \<open>
  The key loop. The keys are those of the collection when the loop starts; a property
  deleted before its turn is not visited.
\<close>

fun each_keys :: "('s \<Rightarrow> heap) \<Rightarrow> 's callback \<Rightarrow> val \<Rightarrow> string list \<Rightarrow> val list \<Rightarrow> 's \<Rightarrow> (val, 's) outcome" where
  "each_keys hp fn coll [] acc s = Return (VArr acc) s"
| "each_keys hp fn coll (k # ks) acc s =
     (if \<not> has_property (hp s) coll k then each_keys hp fn coll ks acc s
      else
        (case fn (VStr k) (get (hp s) coll k) coll s of
           Return r s' \<Rightarrow>
             (if r = VInfinity then Return (VArr acc) s'
              else each_keys hp fn coll ks (acc @ [r]) s')
         | Throw e s' \<Rightarrow> Throw e s'
         | Diverges \<Rightarrow> Diverges))"

text \<open>
  \<open>each(collection, fn)\<close>. \<open>fn = None\<close> is an absent (falsy) callback. The result
  \<open>VUndefined\<close> is the bare \<open>return\<close>.
\<close>

definition each :: "('s \<Rightarrow> heap) \<Rightarrow> nat \<Rightarrow> val \<Rightarrow> 's callback option \<Rightarrow> 's \<Rightarrow> (val, 's) outcome" where
  "each hp fuel collection fn s =
     (case fn of
        None \<Rightarrow> Return VUndefined s
      | Some f \<Rightarrow>
          if \<not> truthy collection then Return VUndefined s
          else
            let h = hp s;
                iString = isString collection;
                iArray = (isArray h collection \<or> iString);
                iMap = isMap h collection;
                iFunction = isFunction h collection
            in
              if \<not> iArray \<and> \<not> iMap \<and> \<not> iFunction then
                each_list f (VArr [collection]) [collection] 0 [] s
              else if iArray then
                (case collection of
                   VArr xs \<Rightarrow> each_list f collection xs 0 [] s
                 | VStr cs \<Rightarrow> each_list f collection (map (\<lambda>c. VStr [c]) cs) 0 [] s
                 | _ \<Rightarrow>
                     (case get h collection ''length'' of
                        VNum n \<Rightarrow> each_index True (nat n) hp f collection 0 [] s
                      | _ \<Rightarrow> each_index False fuel hp f collection 0 [] s))
              else each_keys hp f collection (enum_keys h collection) [] s)"

section \<open>Calling functions\<close>

text \<open>
  \<open>String(v)\<close>, the property name that \<open>o[v]\<close> reads. For an object the host calls its
  \<open>toString\<close>; the model gives the text of a plain object.
\<close>

fun join_keys :: "string list \<Rightarrow> string" where
  "join_keys [] = []"
| "join_keys [k] = k"
| "join_keys (k # ks) = k @ '','' @ join_keys ks"

fun to_key :: "val \<Rightarrow> string" where
  "to_key VUndefined = ''undefined''"
| "to_key VNull = ''null''"
| "to_key (VBool b) = (if b then ''true'' else ''false'')"
| "to_key (VNum n) = (if n < 0 then CHR ''-'' # index_name (nat (- n)) else index_name (nat n))"
| "to_key VInfinity = ''Infinity''"
| "to_key (VStr s) = s"
| "to_key (VArr xs) = join_keys (map (\<lambda>x. if nullish x then [] else to_key x) xs)"
| "to_key (VRef r) = ''[object Object]''"
| "to_key VTypeError = ''TypeError''"

text \<open>\<open>v[i]\<close> for a number \<open>i\<close> that need not be an array index.\<close>

definition get_at :: "heap \<Rightarrow> val \<Rightarrow> val \<Rightarrow> val" where
  "get_at h v i = (case i of
      VNum n \<Rightarrow> (if 0 \<le> n then get_index h v (nat n) else get h v (to_key i))
    | _ \<Rightarrow> get h v (to_key i))"

text \<open>
  The functions of the host program are not part of the library: \<open>prog\<close> gives, for
  each of them, what a call does to the heap, from the receiver and the arguments. A
  \<open>$super\<close> closure that is called by library code (and not by a method) is left to
  \<open>prog\<close> as well.
\<close>

type_synonym behaviour = "val \<Rightarrow> val list \<Rightarrow> heap \<Rightarrow> (val, heap) outcome"

type_synonym program = "fkind \<Rightarrow> behaviour"

definition call_function :: "program \<Rightarrow> val \<Rightarrow> val \<Rightarrow> val list \<Rightarrow> heap \<Rightarrow> (val, heap) outcome" where
  "call_function prog f this args h =
     (case f of
        VRef r \<Rightarrow>
          (case obj_at h r of
             Some ob \<Rightarrow>
               (case kind ob of
                  KFunction EmptyFn \<Rightarrow> Return VUndefined h
                | KFunction k \<Rightarrow> prog k this args h
                | KObject \<Rightarrow> Throw VTypeError h)
           | None \<Rightarrow> Throw VTypeError h)
      | _ \<Rightarrow> Throw VTypeError h)"

section \<open>Super dispatch: makeSuper\<close>

text \<open>
  The body of the closure \<open>child.prototype.$super\<close>, for a call with receiver \<open>this\<close>
  (an object) and arguments \<open>args\<close>, made by the function \<open>caller\<close>
  (\<open>arguments.callee.caller\<close>; \<open>VNull\<close> when there is none).
\<close>

text \<open>
  Called from the constructor: the target is \<open>parent[0]\<close>; \<open>$super\<close> is rebound only
  when the target is a class.
\<close>

definition super_of_constructor :: "heap \<Rightarrow> val \<Rightarrow> ref \<Rightarrow> (val, heap) outcome" where
  "super_of_constructor h parent this =
     (let func = (if truthy parent then get_index h parent 0 else VNum 0)
      in case isClass h func of
           None \<Rightarrow> Throw VTypeError h
         | Some True \<Rightarrow>
             Return func (put h (VRef this) ''$super'' (get h (get h func ''prototype'') ''$super''))
         | Some False \<Rightarrow> Return func h)"

text \<open>
  Called from a method: the callback of \<open>each(child.prototype, ...)\<close> sets the variable
  \<open>name\<close> (the state of the iteration) at the first member that is the caller.
\<close>

definition name_callback :: "val \<Rightarrow> val callback" where
  "name_callback caller key fn coll name =
     (if fn = caller then Return VInfinity key else Return VUndefined name)"

definition find_name :: "nat \<Rightarrow> heap \<Rightarrow> val \<Rightarrow> val \<Rightarrow> (val, val) outcome" where
  "find_name fuel h child caller =
     each (\<lambda>name. h) fuel (get h child ''prototype'') (Some (name_callback caller)) VUndefined"

text \<open>
  \<open>while (len-- && !func) { pa = parent[len]; if (isClass(pa)) { pa = pa.prototype; }
  func = pa[name] || 0; }\<close>. The result is the pair of \<open>func\<close> and \<open>pa\<close>. The loop
  takes at most \<open>len\<close> steps when \<open>len\<close> is a natural number, which is the budget then;
  for another length the budget is the fuel.
\<close>

definition decrement :: "val \<Rightarrow> val" where
  "decrement len = (case len of VNum n \<Rightarrow> VNum (n - 1) | _ \<Rightarrow> len)"

fun super_search :: "bool \<Rightarrow> nat \<Rightarrow> heap \<Rightarrow> val \<Rightarrow> val \<Rightarrow> val \<Rightarrow> val \<Rightarrow> val \<Rightarrow> (val \<times> val, heap) outcome" where
  "super_search bounded 0 h parent name len func pa =
     (if truthy len \<and> \<not> truthy func then (if bounded then Return (func, pa) h else Diverges)
      else Return (func, pa) h)"
| "super_search bounded (Suc b) h parent name len func pa =
     (if truthy len \<and> \<not> truthy func then
        (let len' = decrement len;
             pa0 = get_at h parent len'
         in case isClass h pa0 of
              None \<Rightarrow> Throw VTypeError h
            | Some c \<Rightarrow>
                (let pa' = (if c then get h pa0 ''prototype'' else pa0)
                 in if nullish pa' then Throw VTypeError h
                    else
                      (let f = get h pa' (to_key name);
                           func' = (if truthy f then f else VNum 0)
                       in super_search bounded b h parent name len' func' pa')))
      else Return (func, pa) h)"

definition super_of_method :: "nat \<Rightarrow> heap \<Rightarrow> val \<Rightarrow> val \<Rightarrow> val \<Rightarrow> ref \<Rightarrow> (val, heap) outcome" where
  "super_of_method fuel h child parent caller this =
     (case find_name fuel h child caller of
        Throw e name \<Rightarrow> Throw e h
      | Diverges \<Rightarrow> Diverges
      | Return r name \<Rightarrow>
          (let len = get h parent ''length'';
               run = (case len of
                        VNum n \<Rightarrow> (if 0 \<le> n then super_search True (nat n) else super_search False fuel)
                      | _ \<Rightarrow> super_search False fuel)
           in case run h parent name len VUndefined VUndefined of
                Throw e h' \<Rightarrow> Throw e h'
              | Diverges \<Rightarrow> Diverges
              | Return fp h' \<Rightarrow>
                  (if isFunction h' (fst fp)
                   then Return (fst fp) (put h' (VRef this) ''$super'' (get h' (snd fp) ''$super''))
                   else Return (fst fp) h')))"

text \<open>
  The first half of the closure: it resolves the target \<open>func\<close> (\<open>VUndefined\<close> when
  neither branch is taken, where the source leaves \<open>func\<close> unset) and rebinds \<open>$super\<close>.
\<close>

definition super_resolve :: "nat \<Rightarrow> heap \<Rightarrow> val \<Rightarrow> val \<Rightarrow> val \<Rightarrow> ref \<Rightarrow> (val, heap) outcome" where
  "super_resolve fuel h child parent caller this =
     (if nullish (get h child ''prototype'') then Throw VTypeError h
      else if caller = get h (get h child ''prototype'') ''constructor''
      then super_of_constructor h parent this
      else if truthy parent then super_of_method fuel h child parent caller this
      else Return VUndefined h)"

text \<open>
  The whole closure: the binding \<open>supez\<close> is read first; when the target is a function
  it is applied to the receiver and the arguments, \<open>$super\<close> is set back to \<open>supez\<close> and
  the result of the target is returned. There is no \<open>finally\<close>: when the target throws,
  \<open>$super\<close> is not set back.
\<close>

definition super_dispatch :: "program \<Rightarrow> nat \<Rightarrow> val \<Rightarrow> val \<Rightarrow> val \<Rightarrow> ref \<Rightarrow> val list \<Rightarrow> heap \<Rightarrow> (val, heap) outcome" where
  "super_dispatch prog fuel child parent caller this args h =
     (let supez = get h (VRef this) ''$super''
      in case super_resolve fuel h child parent caller this of
           Throw e h1 \<Rightarrow> Throw e h1
         | Diverges \<Rightarrow> Diverges
         | Return func h1 \<Rightarrow>
             (if isFunction h1 func then
                (case call_function prog func (VRef this) args h1 of
                   Return result h2 \<Rightarrow> Return result (put h2 (VRef this) ''$super'' supez)
                 | Throw e h2 \<Rightarrow> Throw e h2
                 | Diverges \<Rightarrow> Diverges)
              else Return VUndefined h1))"

text \<open>
  \<open>makeSuper(child, parent)\<close> creates the closure and stores it in
  \<open>child.prototype.$super\<close>. A new function object comes with its own prototype object;
  cells 0 and 1 of the heap are \<open>Object.prototype\<close> and \<open>Function.prototype\<close>.
\<close>

definition builtin :: "val \<Rightarrow> property" where
  "builtin v = \<lparr>pvalue = v, enumerable = False, writable = False\<rparr>"

definition hidden :: "val \<Rightarrow> property" where
  "hidden v = \<lparr>pvalue = v, enumerable = False, writable = True\<rparr>"

definition new_object :: "heap \<Rightarrow> heap \<times> val" where
  "new_object h = (h @ [\<lparr>kind = KObject, props = [], proto = Some 0\<rparr>], VRef (length h))"

definition new_function :: "fkind \<Rightarrow> heap \<Rightarrow> heap \<times> val" where
  "new_function k h =
     (let f = length h; p = Suc (length h)
      in (h @ [\<lparr>kind = KFunction k,
                props = [(''length'', builtin (VNum 0)), (''name'', builtin (VStr [])),
                         (''arguments'', builtin VNull), (''caller'', builtin VNull),
                         (''prototype'', hidden (VRef p))],
                proto = Some 1\<rparr>,
               \<lparr>kind = KObject, props = [(''constructor'', hidden (VRef f))], proto = Some 0\<rparr>],
          VRef f))"

definition makeSuper :: "val \<Rightarrow> val \<Rightarrow> heap \<Rightarrow> (val, heap) outcome" where
  "makeSuper child parent h =
     (let (h1, f) = new_function (SuperFn child parent) h
      in if nullish (get h1 child ''prototype'') then Throw VTypeError h1
         else Return VUndefined (put h1 (get h1 child ''prototype'') ''$super'' f))"

section \<open>The state of the library\<close>

text \<open>
  Besides the heap, the library has one variable of its own: the registry \<open>readyFns\<close>,
  an array of pairs \<open>[clazz, callback]\<close>. The field \<open>events\<close> is not part of the program:
  it records, in order, the calls the library makes into the host program and the
  entries it appends to the registry.
\<close>

datatype event = Invoke val val "val list" | Register val val

record state =
  heap :: heap
  readyFns :: "(val \<times> val) list"
  events :: "event list"

text \<open>
  The functions that the library calls while a class is declared (the api function, a
  method \<open>hasOwnProperty\<close> of the api, the ready-callbacks) are functions of the host
  program. They may do anything the program can do, also declare classes: \<open>prog\<close> gives,
  for each of them, what a call does to the state of the library.
\<close>

type_synonym host = "fkind \<Rightarrow> val \<Rightarrow> val list \<Rightarrow> state \<Rightarrow> (val, state) outcome"

text \<open>\<open>f.call(this, args)\<close> made by the library: the call is recorded, then the function runs.\<close>

definition invoke :: "host \<Rightarrow> val \<Rightarrow> val \<Rightarrow> val list \<Rightarrow> state \<Rightarrow> (val, state) outcome" where
  "invoke prog f this args s =
     (let s0 = s\<lparr>events := events s @ [Invoke f this args]\<rparr>
      in case f of
           VRef r \<Rightarrow>
             (case obj_at (heap s) r of
                Some ob \<Rightarrow>
                  (case kind ob of
                     KFunction EmptyFn \<Rightarrow> Return VUndefined s0
                   | KFunction k \<Rightarrow> prog k this args s0
                   | KObject \<Rightarrow> Throw VTypeError s0)
              | None \<Rightarrow> Throw VTypeError s0)
         | _ \<Rightarrow> Throw VTypeError s0)"

text \<open>A program whose functions only read and write the heap.\<close>

definition heap_only :: "program \<Rightarrow> host" where
  "heap_only prog k this args s =
     (case prog k this args (heap s) of
        Return v h \<Rightarrow> Return v (s\<lparr>heap := h\<rparr>)
      | Throw e h \<Rightarrow> Throw e (s\<lparr>heap := h\<rparr>)
      | Diverges \<Rightarrow> Diverges)"

section \<open>Composition: extend\<close>

text \<open>
  \<open>ignoredKeys\<close> is given by its own keys; \<open>None\<close> is an absent (falsy) argument, for
  which the default set is taken.
\<close>

definition default_ignored :: "string list" where
  "default_ignored = [''constructor'', ''$super'', ''prototype'']"

definition ignored_of :: "string list option \<Rightarrow> string list" where
  "ignored_of ignoredKeys = (case ignoredKeys of None \<Rightarrow> default_ignored | Some ks \<Rightarrow> ks)"

text \<open>
  \<open>copier(key, value)\<close>: \<open>object[key] = value\<close>, and \<open>oPrototype[key] = value\<close> when the
  object is a class, unless the key is ignored. It returns \<open>undefined\<close>.
\<close>

definition copier :: "string list \<Rightarrow> val \<Rightarrow> bool \<Rightarrow> val \<Rightarrow> state callback" where
  "copier ign object iClass oPrototype key value coll s =
     (if to_key key \<in> set ign then Return VUndefined s
      else
        (let h1 = put (heap s) object (to_key key) value;
             h2 = (if iClass then put h1 oPrototype (to_key key) value else h1)
         in Return VUndefined (s\<lparr>heap := h2\<rparr>)))"

text \<open>
  \<open>extend(object, subject, ignoredKeys)\<close>. The function calls itself for the elements of
  an array and for the prototypes of two classes; the fuel bounds the depth of these
  calls, and the length of a loop over an array-like object of infinite length.
\<close>

fun extend :: "nat \<Rightarrow> val \<Rightarrow> val \<Rightarrow> string list option \<Rightarrow> state \<Rightarrow> (val, state) outcome" where
  "extend 0 object subject ignoredKeys s = Diverges"
| "extend (Suc n) object subject ignoredKeys s =
     (if isArray (heap s) subject then
        each heap n subject
          (Some (\<lambda>sub i c s'.
             case extend n object sub ignoredKeys s' of
               Return r s'' \<Rightarrow> Return VUndefined s''
             | Throw e s'' \<Rightarrow> Throw e s''
             | Diverges \<Rightarrow> Diverges)) s
      else
        (let ign = ignored_of ignoredKeys
         in case isClass (heap s) object of
              None \<Rightarrow> Throw VTypeError s
            | Some iClass \<Rightarrow>
                (case isClass (heap s) subject of
                   None \<Rightarrow> Throw VTypeError s
                 | Some isSubClass \<Rightarrow>
                     if nullish object then Throw VTypeError s
                     else
                       (let oPrototype = get (heap s) object ''prototype'';
                            cp = copier ign object iClass oPrototype
                        in case (if isMap (heap s) subject then each heap n subject (Some cp) s
                                 else Return VUndefined s) of
                             Throw e s1 \<Rightarrow> Throw e s1
                           | Diverges \<Rightarrow> Diverges
                           | Return r1 s1 \<Rightarrow>
                               (case (if isSubClass
                                      then each heap n (get (heap s1) subject ''prototype'') (Some cp) s1
                                      else Return VUndefined s1) of
                                  Throw e s2 \<Rightarrow> Throw e s2
                                | Diverges \<Rightarrow> Diverges
                                | Return r2 s2 \<Rightarrow>
                                    (if iClass \<and> isSubClass
                                     then
                                       (case extend n oPrototype (get (heap s2) subject ''prototype'') (Some ign) s2 of
                                          Return r3 s3 \<Rightarrow> Return VUndefined s3
                                        | Throw e s3 \<Rightarrow> Throw e s3
                                        | Diverges \<Rightarrow> Diverges)
                                     else Return VUndefined s2))))))"

section \<open>The ready plugin\<close>

text \<open>
  \<open>count++ >= len\<close>, where \<open>len\<close> is \<open>parent.length\<close> (or 0 when there is no parent).
\<close>

definition count_reached :: "nat \<Rightarrow> val \<Rightarrow> bool" where
  "count_reached count len = (case len of VNum n \<Rightarrow> n \<le> int count | _ \<Rightarrow> False)"

text \<open>
  The callback of the inner \<open>each(parent, ...)\<close> for one registry entry. The variable
  \<open>count\<close> is shared by all the entries: it is the first component of the state of the
  iteration.
\<close>

definition ready_parent :: "host \<Rightarrow> val \<Rightarrow> val \<Rightarrow> val \<Rightarrow> val \<Rightarrow> val \<Rightarrow> (nat \<times> state) callback" where
  "ready_parent prog entry len clazz api parent pa i c cs =
     (let count = fst cs; s = snd cs;
          called = (if pa = get_index (heap s) entry 0
                    then invoke prog (get_index (heap s) entry 1) pa [clazz, api, parent] s
                    else Return VUndefined s)
      in case called of
           Throw e s' \<Rightarrow> Throw e (count, s')
         | Diverges \<Rightarrow> Diverges
         | Return r s' \<Rightarrow>
             (if count_reached count len then Return VInfinity (Suc count, s')
              else Return VUndefined (Suc count, s')))"

definition ready_entry :: "host \<Rightarrow> nat \<Rightarrow> val \<Rightarrow> val \<Rightarrow> val \<Rightarrow> val \<Rightarrow> (nat \<times> state) callback" where
  "ready_entry prog fuel len clazz api parent entry i c cs =
     each (\<lambda>cs. heap (snd cs)) fuel parent (Some (ready_parent prog entry len clazz api parent)) cs"

text \<open>
  \<open>Class.plugins.$ready(clazz, parent, api)\<close>: the scan of the registry, then the
  callback of the new class and its registration.
\<close>

definition ready_scan :: "host \<Rightarrow> nat \<Rightarrow> val \<Rightarrow> val \<Rightarrow> val \<Rightarrow> state \<Rightarrow> (val, nat \<times> state) outcome" where
  "ready_scan prog fuel clazz parent api s =
     (let len = (if truthy parent then get (heap s) parent ''length'' else VNum 0)
      in each (\<lambda>cs. heap (snd cs)) fuel (VArr (map (\<lambda>(c, r). VArr [c, r]) (readyFns s)))
           (Some (ready_entry prog fuel len clazz api parent)) (0, s))"

definition plugin_ready :: "host \<Rightarrow> nat \<Rightarrow> val \<Rightarrow> val \<Rightarrow> val \<Rightarrow> state \<Rightarrow> (val, state) outcome" where
  "plugin_ready prog fuel clazz parent api s =
     (let r = get (heap s) api ''$ready''
      in case ready_scan prog fuel clazz parent api s of
           Throw e cs \<Rightarrow> Throw e (snd cs)
         | Diverges \<Rightarrow> Diverges
         | Return x cs \<Rightarrow>
             (let s1 = snd cs
              in if isFunction (heap s1) r then
                   (case invoke prog r clazz [clazz, api, parent] s1 of
                      Throw e s2 \<Rightarrow> Throw e s2
                    | Diverges \<Rightarrow> Diverges
                    | Return y s2 \<Rightarrow>
                        Return VUndefined
                          (s2\<lparr>readyFns := readyFns s2 @ [(clazz, r)],
                              events := events s2 @ [Register clazz r]\<rparr>))
                 else Return VUndefined s1))"

section \<open>The class factory: Class\<close>

text \<open>
  The keys that \<open>Class\<close> never copies: its own four and the names of the plugins, of
  which this file has one, \<open>$ready\<close>.
\<close>

definition class_ignored :: "string list" where
  "class_ignored = [''constructor'', ''$singleton'', ''$statics'', ''prototype'', ''$ready'']"

text \<open>
  Lines 163 to 170: the arguments are put in place, an absent api becomes a new empty
  object, a parent that is not an array is wrapped, and an api that is a function is
  called. \<open>Class.overload\<close> is not defined in this file, so the constructor is taken as
  it is.
\<close>

definition class_arguments :: "host \<Rightarrow> val \<Rightarrow> val \<Rightarrow> state \<Rightarrow> (val \<times> val, state) outcome" where
  "class_arguments prog parent0 api0 s =
     (let parent1 = (if truthy api0 then parent0 else VNum 0);
          api1 = (if truthy api0 then api0 else parent0);
          (h2, api2) = (if truthy api1 then (heap s, api1) else new_object (heap s));
          s2 = s\<lparr>heap := h2\<rparr>;
          parent2 = (if truthy parent1 \<and> \<not> isArray h2 parent1 then VArr [parent1] else parent1)
      in if isFunction h2 api2 then
           (case invoke prog api2 VUndefined [] s2 of
              Return api3 s3 \<Rightarrow> Return (parent2, api3) s3
            | Throw e s3 \<Rightarrow> Throw e s3
            | Diverges \<Rightarrow> Diverges)
         else Return (parent2, api2) s2)"

text \<open>
  Cell 0 of the heap is \<open>Object.prototype\<close>. Its builtin methods \<open>hasOwnProperty\<close> and
  \<open>propertyIsEnumerable\<close> need not be stored in the heap: an object has them when cell 0
  is in its prototype chain. \<open>hasOwnProperty h v k\<close> is the builtin \<open>v.hasOwnProperty(k)\<close>.
\<close>

definition hasOwnProperty :: "heap \<Rightarrow> val \<Rightarrow> string \<Rightarrow> bool" where
  "hasOwnProperty h v k = (case v of VRef r \<Rightarrow> own_prop h r k \<noteq> None | _ \<Rightarrow> False)"

definition inherits_builtins :: "heap \<Rightarrow> val \<Rightarrow> bool" where
  "inherits_builtins h v =
     (case v of VRef r \<Rightarrow> 0 \<in> set (chain h r) | VUndefined \<Rightarrow> False | VNull \<Rightarrow> False | _ \<Rightarrow> True)"

text \<open>
  Line 173, \<open>api.hasOwnProperty("constructor")\<close>: a property of that name stored in the
  heap is called as a function of the program (a TypeError when it is not a function);
  otherwise the builtin answers, and an api without the method (such as
  \<open>Object.create(null)\<close>) raises a TypeError.
\<close>

definition own_constructor :: "host \<Rightarrow> val \<Rightarrow> state \<Rightarrow> (bool, state) outcome" where
  "own_constructor prog api s =
     (if has_property (heap s) api ''hasOwnProperty'' then
        (case invoke prog (get (heap s) api ''hasOwnProperty'') api [VStr ''constructor''] s of
           Return v s' \<Rightarrow> Return (truthy v) s'
         | Throw e s' \<Rightarrow> Throw e s'
         | Diverges \<Rightarrow> Diverges)
      else if inherits_builtins (heap s) api
      then Return (hasOwnProperty (heap s) api ''constructor'') s
      else Throw VTypeError s)"

text \<open>
  Line 180: the product is a new object for a singleton, the constructor of the api when
  it has one of its own (\<open>own\<close>, the answer of line 173), and a new empty function
  otherwise.
\<close>

definition class_product :: "heap \<Rightarrow> val \<Rightarrow> bool \<Rightarrow> heap \<times> val" where
  "class_product h api own =
     (let constructor = (if own then get h api ''constructor'' else VNum 0);
          singleton = truthy (get h api ''$singleton'')
      in if singleton then new_object h
         else if truthy constructor then (h, constructor)
         else new_function EmptyFn h)"

text \<open>Line 182: the callback of \<open>each(parent, ...)\<close>.\<close>

definition extend_parent :: "nat \<Rightarrow> val \<Rightarrow> state callback" where
  "extend_parent fuel clazz p i c s =
     (case extend fuel clazz p (Some class_ignored) s of
        Return r s' \<Rightarrow> Return VUndefined s'
      | Throw e s' \<Rightarrow> Throw e s'
      | Diverges \<Rightarrow> Diverges)"

text \<open>Lines 174 to 186: the product, composition and \<open>makeSuper\<close>.\<close>

definition class_build :: "nat \<Rightarrow> val \<Rightarrow> val \<Rightarrow> bool \<Rightarrow> state \<Rightarrow> (val, state) outcome" where
  "class_build fuel parent api own s =
     (let singleton = truthy (get (heap s) api ''$singleton'');
          statics = get (heap s) api ''$statics'';
          clazz = snd (class_product (heap s) api own);
          s1 = s\<lparr>heap := fst (class_product (heap s) api own)\<rparr>
      in case each heap fuel parent (Some (extend_parent fuel clazz)) s1 of
           Throw e s2 \<Rightarrow> Throw e s2
         | Diverges \<Rightarrow> Diverges
         | Return r2 s2 \<Rightarrow>
             (case extend fuel (if singleton then clazz else get (heap s2) clazz ''prototype'') api
                     (Some class_ignored) s2 of
                Throw e s3 \<Rightarrow> Throw e s3
              | Diverges \<Rightarrow> Diverges
              | Return r3 s3 \<Rightarrow>
                  (case extend fuel clazz statics (Some class_ignored) s3 of
                     Throw e s4 \<Rightarrow> Throw e s4
                   | Diverges \<Rightarrow> Diverges
                   | Return r4 s4 \<Rightarrow>
                       (if singleton then Return clazz s4
                        else
                          (case makeSuper clazz parent (heap s4) of
                             Return r5 h5 \<Rightarrow> Return clazz (s4\<lparr>heap := h5\<rparr>)
                           | Throw e h5 \<Rightarrow> Throw e (s4\<lparr>heap := h5\<rparr>)
                           | Diverges \<Rightarrow> Diverges)))))"

text \<open>Lines 171 to 186: validation, then the above.\<close>

definition class_compose :: "host \<Rightarrow> nat \<Rightarrow> val \<Rightarrow> val \<Rightarrow> state \<Rightarrow> (val, state) outcome" where
  "class_compose prog fuel parent api s =
     (if \<not> isMap (heap s) api then Throw INVALID s
      else
        (case own_constructor prog api s of
           Throw e s0 \<Rightarrow> Throw e s0
         | Diverges \<Rightarrow> Diverges
         | Return own s0 \<Rightarrow> class_build fuel parent api own s0))"

text \<open>\<open>Class(parent, api)\<close>: the plugins run last, then the product is returned.\<close>

definition Class :: "host \<Rightarrow> nat \<Rightarrow> val \<Rightarrow> val \<Rightarrow> state \<Rightarrow> (val, state) outcome" where
  "Class prog fuel parent0 api0 s =
     (case class_arguments prog parent0 api0 s of
        Throw e s1 \<Rightarrow> Throw e s1
      | Diverges \<Rightarrow> Diverges
      | Return pa s1 \<Rightarrow>
          (case class_compose prog fuel (fst pa) (snd pa) s1 of
             Throw e s2 \<Rightarrow> Throw e s2
           | Diverges \<Rightarrow> Diverges
           | Return clazz s2 \<Rightarrow>
               (case plugin_ready prog fuel clazz (fst pa) (snd pa) s2 of
                  Throw e s3 \<Rightarrow> Throw e s3
                | Diverges \<Rightarrow> Diverges
                | Return r s3 \<Rightarrow> Return clazz s3)))"

text \<open>
  Vocabulary for the properties of the search: the table of a parent in which a member
  is looked up (the prototype of a class, the object itself otherwise), and whether the
  parent has a (truthy) member of a name there: \<open>pa[name]\<close> reads an own property or one
  inherited through the prototype chain of the table.
\<close>

definition super_target :: "heap \<Rightarrow> val \<Rightarrow> val" where
  "super_target h p = (if isClass h p = Some True then get h p ''prototype'' else p)"

definition has_member :: "heap \<Rightarrow> val \<Rightarrow> val \<Rightarrow> bool" where
  "has_member h p name = truthy (get h (super_target h p) (to_key name))"

text \<open>
  The parents of the data model: a class or an instance, whose table is a heap object.
  (\<open>undefined\<close>, \<open>null\<close> and a function without a prototype object raise a TypeError
  in the search; the members that a primitive or an array inherits from the builtin
  prototypes are not modelled by \<open>get\<close>.)
\<close>

definition proper_parent :: "heap \<Rightarrow> val \<Rightarrow> bool" where
  "proper_parent h p =
     (isClass h p \<noteq> None \<and> (case super_target h p of VRef r \<Rightarrow> True | _ \<Rightarrow> False))"

text \<open>A property created by assignment.\<close>

definition plain :: "val \<Rightarrow> property" where
  "plain v = \<lparr>pvalue = v, enumerable = True, writable = True\<rparr>"


section \<open>Concrete heaps\<close>

text \<open>
  Methods for concrete runs: function number \<open>n\<close> returns the pair of \<open>n\<close> and of the
  \<open>$super\<close> binding it sees on its receiver.
\<close>

definition demo_methods :: program where
  "demo_methods k this args h =
     (case k of UserFn n \<Rightarrow> Return (VArr [VNum (int n), get h this ''$super'']) h
      | _ \<Rightarrow> Return VUndefined h)"


text \<open>
  A heap in which \<open>Object.prototype\<close> (cell 0) has its builtin method \<open>toString\<close> (cell
  2, function number 9 of the program). The class \<open>P\<close> (cell 3) has no member of its own;
  the class \<open>C\<close> (cell 6) with parent \<open>[P]\<close> has the methods \<open>toString\<close> (cell 8) and \<open>m\<close>
  (cell 9); cell 11 is an instance of \<open>C\<close>. Cells 5 and 10 are the \<open>$super\<close> closures.
\<close>

definition inherited_heap :: heap where
  "inherited_heap =
    [\<lparr>kind = KObject, props = [(''toString'', hidden (VRef 2))], proto = None\<rparr>,
     \<lparr>kind = KObject, props = [], proto = Some 0\<rparr>,
     \<lparr>kind = KFunction (UserFn 9), props = [], proto = Some 1\<rparr>,
     \<lparr>kind = KFunction (UserFn 0), props = [(''prototype'', hidden (VRef 4))], proto = Some 1\<rparr>,
     \<lparr>kind = KObject,
      props = [(''constructor'', hidden (VRef 3)), (''$super'', plain (VRef 5))],
      proto = Some 0\<rparr>,
     \<lparr>kind = KFunction (SuperFn (VRef 3) (VNum 0)), props = [], proto = Some 1\<rparr>,
     \<lparr>kind = KFunction (UserFn 1), props = [(''prototype'', hidden (VRef 7))], proto = Some 1\<rparr>,
     \<lparr>kind = KObject,
      props = [(''constructor'', hidden (VRef 6)), (''toString'', plain (VRef 8)), (''m'', plain (VRef 9)),
               (''$super'', plain (VRef 10))],
      proto = Some 0\<rparr>,
     \<lparr>kind = KFunction (UserFn 2), props = [], proto = Some 1\<rparr>,
     \<lparr>kind = KFunction (UserFn 3), props = [], proto = Some 1\<rparr>,
     \<lparr>kind = KFunction (SuperFn (VRef 6) (VArr [VRef 3])), props = [], proto = Some 1\<rparr>,
     \<lparr>kind = KObject, props = [], proto = Some 7\<rparr>]"

section \<open>Observing the invocations of a callback\<close>

text \<open>
  To state which invocations \<open>each\<close> makes, the callback is run together with a log:
  \<open>logged fn\<close> behaves as \<open>fn\<close> and appends to the log the first argument it was
  called with and the value it returned. \<open>unlogged\<close> forgets the log again.
\<close>

definition logged :: "'s callback \<Rightarrow> ('s \<times> (val \<times> val) list) callback" where
  "logged fn v i c sl =
     (case fn v i c (fst sl) of
        Return r s' \<Rightarrow> Return r (s', snd sl @ [(v, r)])
      | Throw e s' \<Rightarrow> Throw e (s', snd sl)
      | Diverges \<Rightarrow> Diverges)"

definition log_ok :: "val list \<Rightarrow> (val \<times> val) list \<Rightarrow> val list \<Rightarrow> (val \<times> val) list \<Rightarrow> val \<Rightarrow> bool" where
  "log_ok acc lg rs lg' res =
     (res = VArr (acc @ rs) \<and> VInfinity \<notin> set rs \<and>
      (map snd lg' = map snd lg @ rs \<or> map snd lg' = map snd lg @ rs @ [VInfinity]))"

definition log_hp :: "('s \<Rightarrow> heap) \<Rightarrow> ('s \<times> (val \<times> val) list) \<Rightarrow> heap" where
  "log_hp hp sl = hp (fst sl)"

definition unlogged :: "(val, 's \<times> (val \<times> val) list) outcome \<Rightarrow> (val, 's) outcome" where
  "unlogged out = (case out of Return r sl \<Rightarrow> Return r (fst sl) | Throw e sl \<Rightarrow> Throw e (fst sl) | Diverges \<Rightarrow> Diverges)"

text \<open>A callback for concrete runs: it returns its first argument, and the stop sentinel at \<open>x\<close>.\<close>

definition stop_at :: "val \<Rightarrow> 's callback" where
  "stop_at x v i c s = (if v = x then Return VInfinity s else Return v s)"

section \<open>Vocabulary for the properties of the class factory\<close>




text \<open>What composition leaves alone: the registry and the events.\<close>

definition registry_of :: "state \<Rightarrow> (val \<times> val) list \<times> event list" where
  "registry_of s = (readyFns s, events s)"



text \<open>Projections of an outcome.\<close>

definition events_of :: "('a, state) outcome \<Rightarrow> event list" where
  "events_of out = (case out of Return r s \<Rightarrow> events s | Throw e s \<Rightarrow> events s | Diverges \<Rightarrow> [])"


definition returned :: "('a, 's) outcome \<Rightarrow> 'a option" where
  "returned out = (case out of Return r s \<Rightarrow> Some r | Throw e s \<Rightarrow> None | Diverges \<Rightarrow> None)"

text \<open>
  A host program for concrete runs: function number \<open>n\<close> returns the pair of \<open>n\<close> and
  of the \<open>$super\<close> binding it sees on its receiver.
\<close>

definition demo_prog :: host where
  "demo_prog = heap_only demo_methods"

text \<open>
  Two registered classes \<open>A\<close> (cell 2) and \<open>B\<close> (cell 5) with their ready-callbacks (cells 4
  and 7), the api \<open>{}\<close> (cell 8) and the api \<open>{$ready: f}\<close> (cell 9) with the function of
  cell 7.
\<close>

definition registry_heap :: heap where
  "registry_heap =
    [\<lparr>kind = KObject, props = [], proto = None\<rparr>,
     \<lparr>kind = KObject, props = [], proto = Some 0\<rparr>,
     \<lparr>kind = KFunction (UserFn 0), props = [(''prototype'', hidden (VRef 3))], proto = Some 1\<rparr>,
     \<lparr>kind = KObject, props = [(''constructor'', hidden (VRef 2))], proto = Some 0\<rparr>,
     \<lparr>kind = KFunction (UserFn 1), props = [], proto = Some 1\<rparr>,
     \<lparr>kind = KFunction (UserFn 2), props = [(''prototype'', hidden (VRef 6))], proto = Some 1\<rparr>,
     \<lparr>kind = KObject, props = [(''constructor'', hidden (VRef 5))], proto = Some 0\<rparr>,
     \<lparr>kind = KFunction (UserFn 3), props = [], proto = Some 1\<rparr>,
     \<lparr>kind = KObject, props = [], proto = Some 0\<rparr>,
     \<lparr>kind = KObject, props = [(''$ready'', plain (VRef 7))], proto = Some 0\<rparr>]"

definition registry_state :: state where
  "registry_state = \<lparr>heap = registry_heap, readyFns = [(VRef 2, VRef 4), (VRef 5, VRef 7)], events = []\<rparr>"


section \<open>Vocabulary for the termination of a declaration\<close>

text \<open>An outcome is a result whose state satisfies \<open>I\<close>; a callback that always has one.\<close>

definition returns :: "('s \<Rightarrow> bool) \<Rightarrow> ('a, 's) outcome \<Rightarrow> bool" where
  "returns I out = (case out of Return r s \<Rightarrow> I s | Throw e s \<Rightarrow> False | Diverges \<Rightarrow> False)"

definition total :: "('s \<Rightarrow> bool) \<Rightarrow> 's callback \<Rightarrow> bool" where
  "total I fn = (\<forall>v i c t. I t \<longrightarrow> returns I (fn v i c t))"











section \<open>Vocabulary for the errors of a declaration\<close>

text \<open>Whatever an outcome throws satisfies \<open>E\<close>; what the functions of the program throw.\<close>

definition throws_within :: "(val \<Rightarrow> bool) \<Rightarrow> ('a, 's) outcome \<Rightarrow> bool" where
  "throws_within E out = (case out of Throw e s \<Rightarrow> E e | Return r s \<Rightarrow> True | Diverges \<Rightarrow> True)"




section \<open>Properties of each\<close>

lemma log_ok_stop: "log_ok acc lg [] (lg @ [(x, VInfinity)]) (VArr acc)"
  by (simp add: log_ok_def)

lemma log_ok_nil: "log_ok acc lg [] lg (VArr acc)"
  by (simp add: log_ok_def)

lemma log_ok_step: "r \<noteq> VInfinity \<Longrightarrow> log_ok (acc @ [r]) (lg @ [(x, r)]) rs lg' res \<Longrightarrow> log_ok acc lg (r # rs) lg' res"
  by (auto simp: log_ok_def)

lemma each_list_logged:
  "each_list (logged fn) coll xs i acc (s, lg) = Return res (s', lg') \<Longrightarrow>
   \<exists>rs. log_ok acc lg rs lg' res"
proof (induction xs arbitrary: i acc s lg)
  case Nil
  then show ?case using log_ok_nil by auto
next
  case (Cons x xs)
  show ?case
  proof (cases "fn x (VNum (int i)) coll s")
    case (Return r s1)
    have L: "logged fn x (VNum (int i)) coll (s, lg) = Return r (s1, lg @ [(x, r)])"
      using Return by (simp add: logged_def)
    show ?thesis
    proof (cases "r = VInfinity")
      case True
      with Cons.prems L show ?thesis using log_ok_stop by auto
    next
      case False
      with Cons.prems L
      have "each_list (logged fn) coll xs (Suc i) (acc @ [r]) (s1, lg @ [(x, r)]) = Return res (s', lg')"
        by simp
      from Cons.IH[OF this] obtain rs where "log_ok (acc @ [r]) (lg @ [(x, r)]) rs lg' res" by blast
      with False show ?thesis using log_ok_step by blast
    qed
  next
    case (Throw e s1)
    then have "logged fn x (VNum (int i)) coll (s, lg) = Throw e (s1, lg)"
      by (simp add: logged_def)
    with Cons.prems show ?thesis by simp
  next
    case Diverges
    then have "logged fn x (VNum (int i)) coll (s, lg) = Diverges"
      by (simp add: logged_def)
    with Cons.prems show ?thesis by simp
  qed
qed

lemma log_hp_app: "log_hp hp (s, lg) = hp s"
  by (simp add: log_hp_def)

lemma each_index_logged:
  "each_index bounded b (log_hp hp) (logged fn) coll i acc (s, lg) = Return res (s', lg') \<Longrightarrow>
   \<exists>rs. log_ok acc lg rs lg' res"
proof (induction b arbitrary: i acc s lg)
  case 0
  then show ?case using log_ok_nil by (auto split: if_splits)
next
  case (Suc b)
  let ?x = "get_index (hp s) coll i"
  show ?case
  proof (cases "fn ?x (VNum (int i)) coll s")
    case (Return r s1)
    have L: "logged fn ?x (VNum (int i)) coll (s, lg) = Return r (s1, lg @ [(?x, r)])"
      using Return by (simp add: logged_def)
    show ?thesis
    proof (cases "r = VInfinity")
      case True
      with Suc.prems L show ?thesis using log_ok_stop by (auto simp: log_hp_app)
    next
      case False
      with Suc.prems L
      have "each_index bounded b (log_hp hp) (logged fn) coll (Suc i) (acc @ [r]) (s1, lg @ [(?x, r)]) = Return res (s', lg')"
        by (simp add: log_hp_app)
      from Suc.IH[OF this] obtain rs where "log_ok (acc @ [r]) (lg @ [(?x, r)]) rs lg' res" by blast
      with False show ?thesis using log_ok_step by blast
    qed
  next
    case (Throw e s1)
    then have "logged fn ?x (VNum (int i)) coll (s, lg) = Throw e (s1, lg)"
      by (simp add: logged_def)
    with Suc.prems show ?thesis by (simp add: log_hp_app)
  next
    case Diverges
    then have "logged fn ?x (VNum (int i)) coll (s, lg) = Diverges"
      by (simp add: logged_def)
    with Suc.prems show ?thesis by (simp add: log_hp_app)
  qed
qed

lemma each_keys_logged:
  "each_keys (log_hp hp) (logged fn) coll ks acc (s, lg) = Return res (s', lg') \<Longrightarrow>
   \<exists>rs. log_ok acc lg rs lg' res"
proof (induction ks arbitrary: acc s lg)
  case Nil
  then show ?case using log_ok_nil by auto
next
  case (Cons k ks)
  show ?case
  proof (cases "has_property (hp s) coll k")
    case False
    with Cons.prems have "each_keys (log_hp hp) (logged fn) coll ks acc (s, lg) = Return res (s', lg')"
      by (simp add: log_hp_app)
    from Cons.IH[OF this] show ?thesis .
  next
    case True
    let ?x = "VStr k"
    let ?y = "get (hp s) coll k"
    show ?thesis
    proof (cases "fn ?x ?y coll s")
      case (Return r s1)
      have L: "logged fn ?x ?y coll (s, lg) = Return r (s1, lg @ [(?x, r)])"
        using Return by (simp add: logged_def)
      show ?thesis
      proof (cases "r = VInfinity")
        case T: True
        with Cons.prems L True show ?thesis using log_ok_stop by (auto simp: log_hp_app)
      next
        case False
        with Cons.prems L True
        have "each_keys (log_hp hp) (logged fn) coll ks (acc @ [r]) (s1, lg @ [(?x, r)]) = Return res (s', lg')"
          by (simp add: log_hp_app)
        from Cons.IH[OF this] obtain rs where "log_ok (acc @ [r]) (lg @ [(?x, r)]) rs lg' res" by blast
        with False show ?thesis using log_ok_step by blast
      qed
    next
      case (Throw e s1)
      then have "logged fn ?x ?y coll (s, lg) = Throw e (s1, lg)"
        by (simp add: logged_def)
      with Cons.prems True show ?thesis by (simp add: log_hp_app)
    next
      case Diverges
      then have "logged fn ?x ?y coll (s, lg) = Diverges"
        by (simp add: logged_def)
      with Cons.prems True show ?thesis by (simp add: log_hp_app)
    qed
  qed
qed

lemma each_logged:
  assumes "each (log_hp hp) fuel coll (Some (logged fn)) (s, []) = Return res (s', lg')"
    and "truthy coll"
  shows "\<exists>rs. log_ok [] [] rs lg' res"
proof -
  let ?h = "hp s"
  let ?f = "logged fn"
  consider (scalar) "each_list ?f (VArr [coll]) [coll] 0 [] (s, []) = Return res (s', lg')"
    | (arr) xs where "each_list ?f coll xs 0 [] (s, []) = Return res (s', lg')"
    | (idx) bd b where "each_index bd b (log_hp hp) ?f coll 0 [] (s, []) = Return res (s', lg')"
    | (keys) ks where "each_keys (log_hp hp) ?f coll ks [] (s, []) = Return res (s', lg')"
    using assms unfolding each_def Let_def
    by (simp only: option.case if_False if_True not_not split: if_splits val.splits) blast+
  then show ?thesis
    by cases (blast dest: each_list_logged each_index_logged each_keys_logged)+
qed

lemma logged_cases:
  "(\<exists>r s1. fn v i c s = Return r s1 \<and> logged fn v i c (s, lg) = Return r (s1, lg @ [(v, r)]))
   \<or> (\<exists>e s1. fn v i c s = Throw e s1 \<and> logged fn v i c (s, lg) = Throw e (s1, lg))
   \<or> (fn v i c s = Diverges \<and> logged fn v i c (s, lg) = Diverges)"
  by (cases "fn v i c s") (simp_all add: logged_def)

lemma unlogged_each_list:
  "unlogged (each_list (logged fn) coll xs i acc (s, lg)) = each_list fn coll xs i acc s"
proof (induction xs arbitrary: i acc s lg)
  case Nil
  show ?case by (simp add: unlogged_def)
next
  case (Cons x xs)
  from logged_cases[of fn x "VNum (int i)" coll s lg] show ?case
    by (elim disjE exE conjE) (simp_all add: Cons.IH, simp_all add: unlogged_def)
qed

lemma unlogged_each_index:
  "unlogged (each_index bd b (log_hp hp) (logged fn) coll i acc (s, lg)) = each_index bd b hp fn coll i acc s"
proof (induction b arbitrary: i acc s lg)
  case 0
  show ?case by (simp add: unlogged_def)
next
  case (Suc b)
  from logged_cases[of fn "get_index (hp s) coll i" "VNum (int i)" coll s lg] show ?case
    by (elim disjE exE conjE) (simp_all add: Suc.IH log_hp_app, simp_all add: unlogged_def)
qed

lemma unlogged_each_keys:
  "unlogged (each_keys (log_hp hp) (logged fn) coll ks acc (s, lg)) = each_keys hp fn coll ks acc s"
proof (induction ks arbitrary: acc s lg)
  case Nil
  show ?case by (simp add: unlogged_def)
next
  case (Cons k ks)
  from logged_cases[of fn "VStr k" "get (hp s) coll k" coll s lg] show ?case
    by (elim disjE exE conjE) (simp_all add: Cons.IH log_hp_app, simp_all add: unlogged_def)
qed

lemma unlogged_each:
  "unlogged (each (log_hp hp) fuel coll (Some (logged fn)) (s, lg)) = each hp fuel coll (Some fn) s"
proof (cases "truthy coll")
  case False
  then show ?thesis by (simp add: each_def unlogged_def)
next
  case True
  note U = unlogged_each_list unlogged_each_index unlogged_each_keys
  show ?thesis
  proof (cases "\<not> (isArray (hp s) coll \<or> isString coll) \<and> \<not> isMap (hp s) coll \<and> \<not> isFunction (hp s) coll")
    case A: True
    then show ?thesis using True by (auto simp add: each_def Let_def log_hp_app U simp del: each_list.simps each_index.simps each_keys.simps)
  next
    case A: False
    show ?thesis
    proof (cases "isArray (hp s) coll \<or> isString coll")
      case B: False
      then show ?thesis using True A by (auto simp add: each_def Let_def log_hp_app U simp del: each_list.simps each_index.simps each_keys.simps)
    next
      case B: True
      show ?thesis
      proof (cases coll)
        case (VArr xs)
        then show ?thesis using True A B by (auto simp add: each_def Let_def log_hp_app U simp del: each_list.simps each_index.simps each_keys.simps)
      next
        case (VStr cs)
        then show ?thesis using True A B by (auto simp add: each_def Let_def log_hp_app U simp del: each_list.simps each_index.simps each_keys.simps)
      next
        case (VRef r)
        then show ?thesis using True A B
          by (cases "get (hp s) (VRef r) ''length''") (auto simp add: each_def Let_def log_hp_app U simp del: each_list.simps each_index.simps each_keys.simps)
      qed (use True A B in \<open>simp_all add: isArray_def isString_def typeof_object_def truthy_def get_def typeof_number_def\<close>)
    qed
  qed
qed

lemma unlogged_Return:
  "unlogged out = Return r s' \<Longrightarrow> \<exists>lg'. out = Return r (s', lg')"
  by (cases out) (auto simp: unlogged_def)

text \<open>
  Claim C3, as the code has it. When \<open>each\<close> returns for a truthy collection, the
  result is an array \<open>rs\<close> that holds, in visitation order, the values the callback
  returned, with one exception: the stop sentinel \<open>Infinity\<close> is never part of
  the result. The log of the invocations shows that the callback returned either
  exactly \<open>rs\<close>, or \<open>rs\<close> followed by one \<open>Infinity\<close>: the invocation that returns the
  sentinel is the last one (iteration halts right after it) and its value is left out.
\<close>

theorem each_stops_before_sentinel:
  assumes "each hp fuel coll (Some fn) s = Return res s'" and "truthy coll"
  shows "\<exists>rs lg. each (log_hp hp) fuel coll (Some (logged fn)) (s, []) = Return res (s', lg)
           \<and> res = VArr rs \<and> VInfinity \<notin> set rs
           \<and> (map snd lg = rs \<or> map snd lg = rs @ [VInfinity])"
proof -
  from assms(1) unlogged_each[of hp fuel coll fn s "[]"]
  obtain lg where L: "each (log_hp hp) fuel coll (Some (logged fn)) (s, []) = Return res (s', lg)"
    using unlogged_Return by metis
  from each_logged[OF L assms(2)] show ?thesis using L by (auto simp: log_ok_def)
qed

theorem each_stops_before_sentinel_witness:
  "\<exists>rs lg. each (log_hp id) 0 (VArr [VNum 1, VNum 2, VNum 3]) (Some (logged (stop_at (VNum 2)))) ([], [])
             = Return (VArr [VNum 1]) ([], lg)
     \<and> VArr [VNum 1] = VArr rs \<and> VInfinity \<notin> set rs
     \<and> (map snd lg = rs \<or> map snd lg = rs @ [VInfinity])"
proof -
  have run: "each id 0 (VArr [VNum 1, VNum 2, VNum 3]) (Some (stop_at (VNum 2))) [] = Return (VArr [VNum 1]) []"
    by (simp add: each_def stop_at_def truthy_def isArray_def isString_def isMap_def isFunction_def
        typeof_object_def typeof_number_def typeof_function_def get_def propertyIsEnumerable_def)
  have tr: "truthy (VArr [VNum 1, VNum 2, VNum 3])"
    by (simp add: truthy_def)
  show ?thesis
    using each_stops_before_sentinel [OF run tr] by simp
qed

text \<open>
  The claim as stated fails: on \<open>[1, 2, 3]\<close> with a callback that returns the sentinel at
  \<open>2\<close>, the callback is invoked on \<open>1\<close> and on \<open>2\<close> and returns \<open>1\<close> and \<open>Infinity\<close>, but
  the result is \<open>[1]\<close>: the value of the terminating invocation is not included.
\<close>

theorem each_sentinel_included_counterexample:
  "each (log_hp id) 0 (VArr [VNum 1, VNum 2, VNum 3]) (Some (logged (stop_at (VNum 2)))) ([], [])
     = Return (VArr [VNum 1]) ([], [(VNum 1, VNum 1), (VNum 2, VInfinity)])"
  by (simp add: each_def stop_at_def logged_def log_hp_def truthy_def isArray_def isString_def isMap_def
      isFunction_def typeof_object_def typeof_number_def typeof_function_def get_def
      propertyIsEnumerable_def)

text \<open>
  Claim C9. \<open>each([], fn)\<close> and \<open>each({}, fn)\<close> (a map without enumerable members)
  return the empty array and leave the state as it was, whatever \<open>fn\<close> would do, so \<open>fn\<close>
  is not invoked; \<open>each(undefined, fn)\<close> and \<open>each\<close> without a callback return
  \<open>undefined\<close> (no result) and do not raise.
\<close>

theorem each_empty_or_absent:
  "each hp fuel (VArr []) (Some fn) s = Return (VArr []) s
   \<and> (isMap (hp s) v \<and> enum_keys (hp s) v = [] \<longrightarrow> each hp fuel v (Some fn) s = Return (VArr []) s)
   \<and> each hp fuel VUndefined fno s = Return VUndefined s
   \<and> each hp fuel coll None s = Return VUndefined s"
proof (intro conjI impI)
  show "each hp fuel (VArr []) (Some fn) s = Return (VArr []) s"
    by (simp add: each_def truthy_def isArray_def isString_def isMap_def isFunction_def
        typeof_object_def typeof_number_def typeof_function_def get_def propertyIsEnumerable_def)
next
  assume m: "isMap (hp s) v \<and> enum_keys (hp s) v = []"
  then have "truthy v" "\<not> isArray (hp s) v" "\<not> isString v"
    by (auto simp: isMap_def isArray_def isString_def typeof_object_def split: val.splits)
  with m show "each hp fuel v (Some fn) s = Return (VArr []) s"
    by (simp add: each_def)
next
  show "each hp fuel VUndefined fno s = Return VUndefined s"
    by (cases fno) (simp_all add: each_def truthy_def)
next
  show "each hp fuel coll None s = Return VUndefined s"
    by (simp add: each_def)
qed

theorem each_empty_or_absent_witness:
  "isMap [\<lparr>kind = KObject, props = [], proto = None\<rparr>] (VRef 0)
   \<and> enum_keys [\<lparr>kind = KObject, props = [], proto = None\<rparr>] (VRef 0) = []
   \<and> each id 0 (VRef 0) (Some (stop_at (VNum 2))) [\<lparr>kind = KObject, props = [], proto = None\<rparr>]
       = Return (VArr []) [\<lparr>kind = KObject, props = [], proto = None\<rparr>]"
proof -
  let ?h = "[\<lparr>kind = KObject, props = [], proto = None\<rparr>]"
  have m: "isMap ?h (VRef 0)"
    by (simp add: isMap_def truthy_def typeof_object_def typeof_function_def obj_at_def get_def
        lookup_def chain_def own_prop_def typeof_number_def)
  have k: "enum_keys ?h (VRef 0) = []"
    by (simp add: enum_keys_def chain_def obj_at_def enum_order_def)
  from each_empty_or_absent [of id 0 "stop_at (VNum 2)" ?h "VRef 0" None VUndefined] m k
  show ?thesis by simp
qed

section \<open>Properties of the super dispatch\<close>

lemma obj_at_put_ref_kind:
  "map_option kind (obj_at (put_ref h r k v) r') = map_option kind (obj_at h r')"
  by (auto simp: put_ref_def obj_at_def nth_list_update split: option.splits)

lemma typeof_function_put [simp]:
  "typeof_function (put h o' k x) v = typeof_function h v"
proof (cases o')
  case (VRef r)
  show ?thesis
  proof (cases v)
    case (VRef r')
    have "map_option kind (obj_at (put_ref h r k x) r') = map_option kind (obj_at h r')"
      by (rule obj_at_put_ref_kind)
    then show ?thesis
      using \<open>o' = VRef r\<close> VRef
      by (cases "obj_at (put_ref h r k x) r'"; cases "obj_at h r'")
         (auto simp: typeof_function_def put_def)
  qed (simp_all add: typeof_function_def)
qed (simp_all add: put_def)

lemma isFunction_put [simp]: "isFunction (put h o' k x) v = isFunction h v"
  by (simp add: isFunction_def)

lemma isClass_Some_True_isFunction: "isClass h v = Some True \<Longrightarrow> isFunction h v"
  by (auto simp: isClass_def split: if_splits)

lemma super_search_heap:
  "super_search bd b h parent name len func pa = Return fp h' \<Longrightarrow> h' = h"
proof (induction b arbitrary: len func pa)
  case 0
  then show ?case by (simp split: if_splits)
next
  case (Suc b)
  show ?case
  proof (cases "truthy len \<and> \<not> truthy func")
    case False
    with Suc.prems show ?thesis by simp
  next
    case True
    let ?pa0 = "get_at h parent (decrement len)"
    from True Suc.prems obtain c where c: "isClass h ?pa0 = Some c"
      by (cases "isClass h ?pa0") (simp_all add: Let_def)
    let ?pa' = "if c then get h ?pa0 ''prototype'' else ?pa0"
    from True Suc.prems c have nn: "\<not> nullish ?pa'"
      by (cases "nullish ?pa'") (simp_all add: Let_def)
    from True Suc.prems c nn obtain f' where
      "super_search bd b h parent name (decrement len) f' ?pa' = Return fp h'"
      by (simp add: Let_def)
    then show ?thesis by (rule Suc.IH)
  qed
qed

lemma super_of_constructor_not_function:
  assumes "super_of_constructor h parent this = Return func h1" and "\<not> isFunction h1 func"
  shows "h1 = h"
  using assms
  by (auto simp: super_of_constructor_def Let_def split: option.splits bool.splits if_splits
      dest: isClass_Some_True_isFunction)

lemma super_of_method_Return:
  assumes "super_of_method fuel h child parent caller this = Return func h1"
  shows "\<exists>r name bd b fp.
           find_name fuel h child caller = Return r name
         \<and> super_search bd b h parent name (get h parent ''length'') VUndefined VUndefined = Return fp h
         \<and> func = fst fp
         \<and> h1 = (if isFunction h (fst fp) then put h (VRef this) ''$super'' (get h (snd fp) ''$super'') else h)"
proof -
  obtain r name where fnm: "find_name fuel h child caller = Return r name"
    using assms by (cases "find_name fuel h child caller") (simp_all add: super_of_method_def)
  define len where "len = get h parent ''length''"
  define run where "run = (case len of
        VNum n \<Rightarrow> (if 0 \<le> n then super_search True (nat n) else super_search False fuel)
      | _ \<Rightarrow> super_search False fuel)"
  have runs: "\<exists>bd b. run = super_search bd b"
    unfolding run_def by (cases len) auto
  from assms fnm have C: "(case run h parent name len VUndefined VUndefined of
            Throw e h' \<Rightarrow> Throw e h'
          | Diverges \<Rightarrow> Diverges
          | Return fp h' \<Rightarrow>
              (if isFunction h' (fst fp)
               then Return (fst fp) (put h' (VRef this) ''$super'' (get h' (snd fp) ''$super''))
               else Return (fst fp) h')) = Return func h1"
    by (simp add: super_of_method_def Let_def run_def len_def)
  then obtain fp h' where R: "run h parent name len VUndefined VUndefined = Return fp h'"
    by (cases "run h parent name len VUndefined VUndefined") simp_all
  from runs obtain bd b where rb: "run = super_search bd b" by blast
  from R rb have hh: "h' = h" by (auto dest: super_search_heap)
  from C R hh have "func = fst fp"
    and "h1 = (if isFunction h (fst fp) then put h (VRef this) ''$super'' (get h (snd fp) ''$super'') else h)"
    by (auto split: if_splits)
  with fnm R rb hh show ?thesis unfolding len_def by blast
qed

lemma super_of_method_not_function:
  assumes "super_of_method fuel h child parent caller this = Return func h1" and "\<not> isFunction h1 func"
  shows "h1 = h"
proof -
  from super_of_method_Return[OF assms(1)] obtain fp where
    f: "func = fst fp"
    and h1: "h1 = (if isFunction h (fst fp) then put h (VRef this) ''$super'' (get h (snd fp) ''$super'') else h)"
    by blast
  show ?thesis
  proof (cases "isFunction h (fst fp)")
    case True
    with h1 f assms(2) show ?thesis by simp
  next
    case False
    with h1 show ?thesis by simp
  qed
qed

lemma super_resolve_not_function:
  assumes "super_resolve fuel h child parent caller this = Return func h1" and "\<not> isFunction h1 func"
  shows "h1 = h"
  using assms
  by (auto simp: super_resolve_def split: if_splits
      dest: super_of_constructor_not_function super_of_method_not_function)

lemma super_no_target:
  assumes "super_resolve fuel h child parent caller this = Return func h1" and "\<not> isFunction h1 func"
  shows "super_dispatch prog fuel child parent caller this args h = Return VUndefined h"
  using assms super_resolve_not_function[OF assms]
  by (simp add: super_dispatch_def)

lemma isClass_number [simp]: "isClass h (VNum n) = Some False"
  by (simp add: isClass_def isFunction_def typeof_function_def)

lemma super_resolve_no_parent:
  assumes "\<not> truthy parent" and "\<not> nullish (get h child ''prototype'')"
  shows "\<exists>func. super_resolve fuel h child parent caller this = Return func h \<and> \<not> isFunction h func"
  using assms
  by (auto simp: super_resolve_def super_of_constructor_def isFunction_def typeof_function_def truthy_def)

lemma super_search_step:
  assumes "\<not> truthy func" and "m < length ps" and "proper_parent h (ps ! m)"
  shows "super_search bd (Suc b) h (VArr ps) name (VNum (int (Suc m))) func pa
       = super_search bd b h (VArr ps) name (VNum (int m))
           (if has_member h (ps ! m) name then get h (super_target h (ps ! m)) (to_key name) else VNum 0)
           (super_target h (ps ! m))"
proof -
  have t: "truthy (VNum (int (Suc m)))" by (simp add: truthy_def)
  have d: "decrement (VNum (int (Suc m))) = VNum (int m)" by (simp add: decrement_def)
  have g: "get_at h (VArr ps) (VNum (int m)) = ps ! m"
    using assms(2) by (simp add: get_at_def get_index_def)
  from assms(3) obtain c where c: "isClass h (ps ! m) = Some c"
    by (auto simp: proper_parent_def)
  have tg: "(if c then get h (ps ! m) ''prototype'' else ps ! m) = super_target h (ps ! m)"
    using c by (simp add: super_target_def)
  have nn: "\<not> nullish (super_target h (ps ! m))"
    using assms(3) by (auto simp: proper_parent_def nullish_def split: val.splits)
  show ?thesis
  proof (cases c)
    case True
    then have e: "super_target h (ps ! m) = get h (ps ! m) ''prototype''" using tg by simp
    show ?thesis
      using assms(1) t nn True
      by (simp add: d g c e has_member_def Let_def del: of_nat_Suc)
  next
    case False
    then have e: "super_target h (ps ! m) = ps ! m" using tg by simp
    show ?thesis
      using assms(1) t nn False
      by (simp add: d g c e has_member_def Let_def del: of_nat_Suc)
  qed
qed

lemma super_search_skip:
  assumes "\<not> truthy func" and "k + d \<le> length ps"
    and "\<forall>i. k \<le> i \<and> i < k + d \<longrightarrow> proper_parent h (ps ! i) \<and> \<not> has_member h (ps ! i) name"
  shows "\<exists>func' pa'. \<not> truthy func' \<and>
           super_search bd (k + d + b) h (VArr ps) name (VNum (int (k + d))) func pa
         = super_search bd (k + b) h (VArr ps) name (VNum (int k)) func' pa'"
  using assms
proof (induction d arbitrary: func pa)
  case 0
  then show ?case by auto
next
  case (Suc d)
  have m: "k + d < length ps" using Suc.prems(2) by simp
  have pp: "proper_parent h (ps ! (k + d))" and nd: "\<not> has_member h (ps ! (k + d)) name"
    using Suc.prems(3) by auto
  have step: "super_search bd (Suc (k + d + b)) h (VArr ps) name (VNum (int (Suc (k + d)))) func pa
       = super_search bd (k + d + b) h (VArr ps) name (VNum (int (k + d))) (VNum 0) (super_target h (ps ! (k + d)))"
    using super_search_step[OF Suc.prems(1) m pp, of bd "k + d + b" name pa] nd by simp
  have f0: "\<not> truthy (VNum 0)" by (simp add: truthy_def)
  have le: "k + d \<le> length ps" using m by simp
  have all: "\<forall>i. k \<le> i \<and> i < k + d \<longrightarrow> proper_parent h (ps ! i) \<and> \<not> has_member h (ps ! i) name"
    using Suc.prems(3) by auto
  from Suc.IH[OF f0 le all, of "super_target h (ps ! (k + d))"] step
  show ?case by (simp del: of_nat_Suc of_nat_add)
qed

lemma super_search_stop:
  "\<not> (truthy len \<and> \<not> truthy func) \<Longrightarrow> super_search bd b h parent name len func pa = Return (func, pa) h"
  by (cases b) auto


lemma super_search_none:
  assumes "\<forall>i. i < length ps \<longrightarrow> proper_parent h (ps ! i) \<and> \<not> has_member h (ps ! i) name"
  shows "\<exists>func pa. \<not> truthy func \<and>
      super_search True (length ps) h (VArr ps) name (VNum (int (length ps))) VUndefined VUndefined
       = Return (func, pa) h"
proof -
  have u: "\<not> truthy VUndefined" by (simp add: truthy_def)
  have all: "\<forall>i. 0 \<le> i \<and> i < 0 + length ps \<longrightarrow> proper_parent h (ps ! i) \<and> \<not> has_member h (ps ! i) name"
    using assms by auto
  from super_search_skip[OF u _ all, of True 0 VUndefined] obtain func' pa' where
    f: "\<not> truthy func'"
    and eq: "super_search True (length ps) h (VArr ps) name (VNum (int (length ps))) VUndefined VUndefined
           = super_search True 0 h (VArr ps) name (VNum (int 0)) func' pa'"
    by auto
  have "super_search True 0 h (VArr ps) name (VNum (int 0)) func' pa' = Return (func', pa') h"
    by (intro super_search_stop) (simp add: truthy_def)
  with f eq show ?thesis by auto
qed




text \<open>Every enumerated key is a property of the object.\<close>

lemma enum_chain_has:
  "k \<in> set (enum_chain h rs seen) \<Longrightarrow> find_prop h rs k \<noteq> None"
proof (induction rs arbitrary: seen)
  case Nil
  then show ?case by simp
next
  case (Cons r rs)
  show ?case
  proof (cases "obj_at h r")
    case None
    with Cons.prems show ?thesis by simp
  next
    case (Some ob)
    show ?thesis
    proof (cases "own_prop h r k")
      case (Some p)
      then show ?thesis by simp
    next
      case None
      with Some have nk: "k \<notin> fst ` set (props ob)"
        by (simp add: own_prop_def map_of_eq_None_iff)
      have "set (enum_order (props ob)) = set (props ob)"
        by (auto simp: enum_order_def)
      with nk have "k \<notin> fst ` set (enum_order (props ob))" by simp
      then have "k \<notin> set (map fst (filter (\<lambda>(k, p). enumerable p \<and> k \<notin> set seen) (enum_order (props ob))))"
        by auto
      with Cons.prems Some have "k \<in> set (enum_chain h rs (seen @ map fst (props ob)))"
        by simp
      from Cons.IH[OF this] None show ?thesis by simp
    qed
  qed
qed

lemma enum_keys_has_property:
  "k \<in> set (enum_keys h v) \<Longrightarrow> has_property h v k"
  by (cases v) (auto simp: enum_keys_def has_property_def lookup_def dest: enum_chain_has)

text \<open>The scan for the name of the caller, on a table whose heap does not change.\<close>

lemma each_keys_name:
  assumes "\<forall>k \<in> set before. get h coll k \<noteq> caller"
    and "has_property h coll m" and "get h coll m = caller"
  shows "\<exists>r. each_keys (\<lambda>name. h) (name_callback caller) coll (before @ m # after) acc s = Return r (VStr m)"
  using assms(1)
proof (induction before arbitrary: acc)
  case Nil
  show ?case using assms(2,3) by (simp add: name_callback_def)
next
  case (Cons k ks)
  then have ne: "get h coll k \<noteq> caller" and rest: "\<forall>k \<in> set ks. get h coll k \<noteq> caller" by auto
  show ?case
  proof (cases "has_property h coll k")
    case True
    with ne Cons.IH[OF rest, of "acc @ [VUndefined]"] show ?thesis
      by (simp add: name_callback_def)
  next
    case False
    with Cons.IH[OF rest, of acc] show ?thesis by simp
  qed
qed

lemma find_name_first:
  assumes "get h child ''prototype'' = VRef p" and "\<not> isArray h (VRef p)"
    and "enum_keys h (VRef p) = before @ m # after"
    and "get h (VRef p) m = caller"
    and "\<forall>k \<in> set before. get h (VRef p) k \<noteq> caller"
  shows "\<exists>r. find_name fuel h child caller = Return r (VStr m)"
proof -
  have "m \<in> set (enum_keys h (VRef p))" using assms(3) by simp
  then have hp: "has_property h (VRef p) m" by (rule enum_keys_has_property)
  have cls: "isMap h (VRef p) \<or> isFunction h (VRef p)"
    using assms(2) by (auto simp: isMap_def isArray_def isFunction_def typeof_object_def truthy_def)
  have "find_name fuel h child caller
        = each_keys (\<lambda>name. h) (name_callback caller) (VRef p) (enum_keys h (VRef p)) [] VUndefined"
    using assms(1,2) cls by (auto simp: find_name_def each_def Let_def truthy_def isString_def)
  with each_keys_name[OF assms(5) hp assms(4), of "after" "[]" VUndefined] assms(3)
  show ?thesis by simp
qed

subsection \<open>The claims about the super dispatch\<close>



text \<open>
  Claim C5, as stated, fails when a parent does not define the name of the caller but
  inherits a member of that name. The class \<open>P\<close> has no member \<open>toString\<close> of its own,
  neither as a static nor in its prototype; called from the method \<open>toString\<close> of \<open>C\<close>,
  the closure finds \<open>Object.prototype.toString\<close> through the prototype chain of
  \<open>P.prototype\<close>, calls it and returns its result.
\<close>

theorem super_inherited_member_counterexample:
  "\<not> hasOwnProperty inherited_heap (VRef 3) ''toString''
   \<and> \<not> hasOwnProperty inherited_heap (VRef 4) ''toString''
   \<and> super_dispatch demo_methods 0 (VRef 6) (VArr [VRef 3]) (VRef 8) 11 [] inherited_heap
        = Return (VArr [VNum 9, VRef 5]) (put inherited_heap (VRef 11) ''$super'' (VRef 10))"
  by code_simp

text \<open>
  Claim C5, amended. When the resolution ends without a function, the call returns
  \<open>undefined\<close> (no result), raises nothing and leaves the heap as it was. This is the case
  when the parent list is absent, and when the caller is the method \<open>m\<close> of the child and
  no parent has a member \<open>m\<close>, neither an own one nor one inherited through the prototype
  chain of its table.
\<close>

theorem super_without_target_is_noop:
  "(super_resolve fuel h child parent caller this = Return func h1 \<and> \<not> isFunction h1 func
      \<longrightarrow> super_dispatch prog fuel child parent caller this args h = Return VUndefined h)
   \<and> (\<not> truthy parent0 \<and> \<not> nullish (get h child ''prototype'')
      \<longrightarrow> super_dispatch prog fuel child parent0 caller this args h = Return VUndefined h)
   \<and> (get h child ''prototype'' = VRef p \<and> \<not> isArray h (VRef p)
      \<and> caller \<noteq> get h (VRef p) ''constructor''
      \<and> enum_keys h (VRef p) = before @ m # after
      \<and> get h (VRef p) m = caller
      \<and> (\<forall>k \<in> set before. get h (VRef p) k \<noteq> caller)
      \<and> (\<forall>i. i < length ps \<longrightarrow> proper_parent h (ps ! i) \<and> \<not> has_member h (ps ! i) (VStr m))
      \<longrightarrow> super_dispatch prog fuel child (VArr ps) caller this args h = Return VUndefined h)"
proof (intro conjI impI)
  assume "super_resolve fuel h child parent caller this = Return func h1 \<and> \<not> isFunction h1 func"
  then show "super_dispatch prog fuel child parent caller this args h = Return VUndefined h"
    using super_no_target by blast
next
  assume "\<not> truthy parent0 \<and> \<not> nullish (get h child ''prototype'')"
  then obtain f where "super_resolve fuel h child parent0 caller this = Return f h" "\<not> isFunction h f"
    using super_resolve_no_parent by blast
  then show "super_dispatch prog fuel child parent0 caller this args h = Return VUndefined h"
    by (rule super_no_target)
next
  assume a: "get h child ''prototype'' = VRef p \<and> \<not> isArray h (VRef p)
      \<and> caller \<noteq> get h (VRef p) ''constructor''
      \<and> enum_keys h (VRef p) = before @ m # after
      \<and> get h (VRef p) m = caller
      \<and> (\<forall>k \<in> set before. get h (VRef p) k \<noteq> caller)
      \<and> (\<forall>i. i < length ps \<longrightarrow> proper_parent h (ps ! i) \<and> \<not> has_member h (ps ! i) (VStr m))"
  then have a1: "get h child ''prototype'' = VRef p" and a2: "\<not> isArray h (VRef p)"
    and a3: "caller \<noteq> get h (VRef p) ''constructor''"
    and a4: "enum_keys h (VRef p) = before @ m # after"
    and a5: "get h (VRef p) m = caller"
    and a6: "\<forall>k \<in> set before. get h (VRef p) k \<noteq> caller"
    and a7: "\<forall>i. i < length ps \<longrightarrow> proper_parent h (ps ! i) \<and> \<not> has_member h (ps ! i) (VStr m)"
    by blast+
  from find_name_first[OF a1 a2 a4 a5 a6, of fuel]
  obtain r where fnm: "find_name fuel h child caller = Return r (VStr m)" by blast
  from super_search_none[OF a7] obtain f pa where f: "\<not> truthy f"
    and search: "super_search True (length ps) h (VArr ps) (VStr m) (VNum (int (length ps))) VUndefined VUndefined
       = Return (f, pa) h"
    by blast
  have nf: "\<not> isFunction h f" using f by (simp add: isFunction_def)
  have len: "get h (VArr ps) ''length'' = VNum (int (length ps))" by (simp add: get_def)
  have meth: "super_of_method fuel h child (VArr ps) caller this = Return f h"
    using fnm nf search by (simp add: super_of_method_def len Let_def)
  have nn: "\<not> nullish (get h child ''prototype'')" using a1 by (simp add: nullish_def)
  have res: "super_resolve fuel h child (VArr ps) caller this = Return f h"
    using nn a1 a3 meth by (simp add: super_resolve_def truthy_def)
  from res nf show "super_dispatch prog fuel child (VArr ps) caller this args h = Return VUndefined h"
    by (rule super_no_target)
qed

theorem super_without_target_is_noop_witness:
  "super_dispatch demo_methods 0 (VRef 6) (VArr [VRef 11]) (VRef 6) 11 [] inherited_heap
      = Return VUndefined inherited_heap
   \<and> super_dispatch demo_methods 0 (VRef 6) (VNum 0) (VRef 9) 11 [] inherited_heap
      = Return VUndefined inherited_heap
   \<and> super_dispatch demo_methods 0 (VRef 6) (VArr [VRef 3]) (VRef 9) 11 [] inherited_heap
      = Return VUndefined inherited_heap"
proof -
  let ?h = inherited_heap
  have a: "super_resolve 0 ?h (VRef 6) (VArr [VRef 11]) (VRef 6) 11 = Return (VRef 11) ?h
           \<and> \<not> isFunction ?h (VRef 11)"
    by code_simp
  have b: "\<not> truthy (VNum 0) \<and> \<not> nullish (get ?h (VRef 6) ''prototype'')"
    by code_simp
  have c1: "get ?h (VRef 6) ''prototype'' = VRef 7 \<and> \<not> isArray ?h (VRef 7)
      \<and> VRef 9 \<noteq> get ?h (VRef 7) ''constructor''
      \<and> enum_keys ?h (VRef 7) = [''toString''] @ ''m'' # [''$super'']
      \<and> get ?h (VRef 7) ''m'' = VRef 9
      \<and> (\<forall>k \<in> set [''toString'']. get ?h (VRef 7) k \<noteq> VRef 9)"
    by code_simp
  have c2: "\<forall>i. i < length [VRef 3] \<longrightarrow>
        proper_parent ?h ([VRef 3] ! i) \<and> \<not> has_member ?h ([VRef 3] ! i) (VStr ''m'')"
  proof (intro allI impI)
    fix i :: nat assume "i < length [VRef 3]"
    then have "i = 0" by auto
    moreover have "proper_parent ?h (VRef 3) \<and> \<not> has_member ?h (VRef 3) (VStr ''m'')" by code_simp
    ultimately show "proper_parent ?h ([VRef 3] ! i) \<and> \<not> has_member ?h ([VRef 3] ! i) (VStr ''m'')"
      by auto
  qed
  note T = super_without_target_is_noop
    [of 0 ?h "VRef 6" "VArr [VRef 11]" "VRef 6" 11 "VRef 11" ?h demo_methods "[]" "VNum 0"]
  from T[of 7 "[''toString'']" "''m''" "[''$super'']" "[]"] a have 1:
    "super_dispatch demo_methods 0 (VRef 6) (VArr [VRef 11]) (VRef 6) 11 [] ?h = Return VUndefined ?h"
    by blast
  note U = super_without_target_is_noop
    [of 0 ?h "VRef 6" "VNum 0" "VRef 9" 11 "VNum 0" ?h demo_methods "[]" "VNum 0"
        7 "[''toString'']" "''m''" "[''$super'']" "[VRef 3]"]
  from U b have 2:
    "super_dispatch demo_methods 0 (VRef 6) (VNum 0) (VRef 9) 11 [] ?h = Return VUndefined ?h"
    by blast
  from U c1 c2 have 3:
    "super_dispatch demo_methods 0 (VRef 6) (VArr [VRef 3]) (VRef 9) 11 [] ?h = Return VUndefined ?h"
    by blast
  from 1 2 3 show ?thesis by blast
qed




section \<open>Properties of the class factory\<close>


















lemma registry_of_heap [simp]: "registry_of (s\<lparr>heap := h\<rparr>) = registry_of s"
  by (simp add: registry_of_def)















section \<open>Writes to the heap\<close>

lemma length_put_ref [simp]: "length (put_ref h t k v) = length h"
  by (auto simp: put_ref_def obj_at_def split: option.splits)

lemma length_put [simp]: "length (put h o' k v) = length h"
  by (cases o') (simp_all add: put_def)

lemma map_of_update_prop_other:
  "k' \<noteq> k \<Longrightarrow> map_of (update_prop k v ps) k' = map_of ps k'"
proof -
  assume ne: "k' \<noteq> k"
  have m: "map_of (map (\<lambda>(a, p'). if a = k then (a, p'\<lparr>pvalue := v\<rparr>) else (a, p')) ps) k' = map_of ps k'"
    using ne by (induction ps) auto
  show ?thesis
    using ne m by (auto simp: update_prop_def map_add_def split: option.splits)
qed

text \<open>What a write does to one cell.\<close>

lemma put_ref_cases:
  "put_ref h t k v = h \<or>
   (\<exists>ob. obj_at h t = Some ob \<and> put_ref h t k v = h[t := ob\<lparr>props := update_prop k v (props ob)\<rparr>])"
  by (auto simp: put_ref_def split: option.splits)

lemma obj_at_put_ref:
  "obj_at (put_ref h t k v) r = None \<longleftrightarrow> obj_at h r = None"
  using put_ref_cases[of h t k v]
  by (auto simp: obj_at_def)

lemma proto_put_ref:
  "obj_at h r = Some ob \<Longrightarrow> \<exists>ob'. obj_at (put_ref h t k v) r = Some ob' \<and> proto ob' = proto ob \<and> kind ob' = kind ob
      \<and> (\<forall>k'. k' \<noteq> k \<longrightarrow> map_of (props ob') k' = map_of (props ob) k')
      \<and> (r \<noteq> t \<longrightarrow> ob' = ob)"
  using put_ref_cases[of h t k v]
  by (auto simp: obj_at_def nth_list_update map_of_update_prop_other split: if_splits)

lemma chain_from_put_ref: "chain_from n (put_ref h t k v) r = chain_from n h r"
proof (induction n arbitrary: r)
  case 0
  show ?case by simp
next
  case (Suc n)
  show ?case
  proof (cases "obj_at h r")
    case None
    then have "obj_at (put_ref h t k v) r = None" by (simp add: obj_at_put_ref)
    with None show ?thesis by simp
  next
    case (Some ob)
    from proto_put_ref[OF Some, of t k v] obtain ob' where
      "obj_at (put_ref h t k v) r = Some ob'" "proto ob' = proto ob" by blast
    with Some Suc.IH show ?thesis by (simp split: option.splits)
  qed
qed

lemma chain_put_ref [simp]: "chain (put_ref h t k v) r = chain h r"
  by (simp add: chain_def chain_from_put_ref)

lemma own_prop_put_ref_other:
  "k' \<noteq> k \<Longrightarrow> own_prop (put_ref h t k v) r k' = own_prop h r k'"
proof (cases "obj_at h r")
  case None
  assume "k' \<noteq> k"
  from None have "obj_at (put_ref h t k v) r = None" by (simp add: obj_at_put_ref)
  with None show ?thesis by (simp add: own_prop_def)
next
  case (Some ob)
  assume ne: "k' \<noteq> k"
  from proto_put_ref[OF Some, of t k v] obtain ob' where
    "obj_at (put_ref h t k v) r = Some ob'" "\<forall>k'. k' \<noteq> k \<longrightarrow> map_of (props ob') k' = map_of (props ob) k'"
    by blast
  with Some ne show ?thesis by (simp add: own_prop_def)
qed

lemma find_prop_put_ref_other:
  "k' \<noteq> k \<Longrightarrow> find_prop (put_ref h t k v) rs k' = find_prop h rs k'"
  by (induction rs) (auto simp: own_prop_put_ref_other split: option.splits)

lemma lookup_put_ref_other:
  "k' \<noteq> k \<Longrightarrow> lookup (put_ref h t k v) r k' = lookup h r k'"
  by (simp add: lookup_def find_prop_put_ref_other)


lemma has_property_put_other:
  "k' \<noteq> k \<Longrightarrow> has_property (put h o' k v) x k' = has_property h x k'"
proof (cases o')
  case (VRef t)
  assume "k' \<noteq> k"
  then show ?thesis using VRef
    by (cases x) (simp_all add: has_property_def put_def lookup_put_ref_other)
qed (simp_all add: put_def)


section \<open>Termination of a declaration\<close>

lemma returnsE:
  assumes "returns I out"
  obtains r s where "out = Return r s" and "I s"
  using assms by (cases out) (simp_all add: returns_def)

lemma returns_Return [simp]: "returns I (Return r s) = I s"
  by (simp add: returns_def)

lemma totalD: "total I fn \<Longrightarrow> I t \<Longrightarrow> returns I (fn v i c t)"
  by (simp add: total_def)



lemma each_index_returns:
  assumes "total I fn"
  shows "I s \<Longrightarrow> returns I (each_index True b hp fn coll i acc s)"
proof (induction b arbitrary: i acc s)
  case 0
  then show ?case by simp
next
  case (Suc b)
  from totalD[OF assms Suc.prems, of "get_index (hp s) coll i" "VNum (int i)" coll]
  obtain r s1 where R: "fn (get_index (hp s) coll i) (VNum (int i)) coll s = Return r s1" and I1: "I s1"
    by (rule returnsE)
  show ?case
  proof (cases "r = VInfinity")
    case True
    with R I1 show ?thesis by simp
  next
    case False
    with R Suc.IH[OF I1, of "Suc i" "acc @ [r]"] show ?thesis by simp
  qed
qed












lemma typeof_object_put [simp]: "typeof_object (put h o' k v) x = typeof_object h x"
  by (cases x) (simp_all add: typeof_object_def)



















lemma obj_at_append:
  "obj_at (h @ xs) r = (if r < length h then obj_at h r else
      if r < length h + length xs then Some (xs ! (r - length h)) else None)"
  by (auto simp: obj_at_def nth_append)




lemma new_function_isFunction: "isFunction (fst (new_function k h)) (snd (new_function k h))"
  by (simp add: new_function_def Let_def isFunction_def truthy_def typeof_function_def obj_at_append)

lemma truthy_not_nullish: "truthy v \<Longrightarrow> \<not> nullish v"
  by (auto simp: truthy_def nullish_def)

lemma class_product_not_nullish: "\<not> nullish (snd (class_product h api own))"
  by (auto simp: class_product_def Let_def new_object_def new_function_def nullish_def
      dest: truthy_not_nullish)















section \<open>The errors of a declaration\<close>

lemma throws_within_simps [simp]:
  "throws_within E (Return r s)" "throws_within E (Throw e s) = E e" "throws_within E Diverges"
  by (simp_all add: throws_within_def)





















subsection \<open>The claims about the ready plugin\<close>




text \<open>
  Claim C2 at a failing input. \<open>A\<close> and \<open>B\<close> are registered, in this order, and a class is
  declared with the parents \<open>[A, B]\<close>. The callback of \<open>A\<close> is called; the callback of
  \<open>B\<close> is not, though \<open>B\<close> is in the parent list: the counter \<open>count\<close> of the scan is not
  reset between the entries, so from the second entry on only the first parent is
  compared.
\<close>

theorem ready_later_entry_not_notified:
  "returned (Class demo_prog 5 (VArr [VRef 2, VRef 5]) (VRef 8) registry_state) = Some (VRef 10)
   \<and> events_of (Class demo_prog 5 (VArr [VRef 2, VRef 5]) (VRef 8) registry_state)
       = [Invoke (VRef 4) (VRef 2) [VRef 10, VRef 8, VArr [VRef 2, VRef 5]]]"
  by code_simp

subsection \<open>The claims about the class factory\<close>





end
